theory Spec2Isabelle
  imports Complex_Main "HOL-Library.Sublist" "HOL-Library.Log_Nat"
begin

section \<open>Values and strings\<close>

text \<open>
  A field of a Firestore document is absent (JavaScript \<open>undefined\<close>), holds \<open>null\<close>, or
  holds a value of the type the TypeScript interfaces of the repository declare for it.
\<close>

datatype 'a field = Absent | Null | Val 'a

text \<open>JavaScript truthiness of a string-valued field: \<open>undefined\<close>, \<open>null\<close> and \<open>""\<close> are falsy.\<close>

fun truthy :: "string field \<Rightarrow> bool" where
  "truthy (Val s) = (s \<noteq> [])"
| "truthy Absent = False"
| "truthy Null = False"

text \<open>\<open>x || ''\<close> on a string-valued field.\<close>

fun or_empty :: "string field \<Rightarrow> string" where
  "or_empty (Val s) = s"
| "or_empty Absent = []"
| "or_empty Null = []"

text \<open>\<open>x || null\<close> on a string-valued field: the string when truthy, otherwise \<open>null\<close>.\<close>

definition or_null :: "string field \<Rightarrow> string option" where
  "or_null f = (if truthy f then Some (or_empty f) else None)"

text \<open>The text a template literal \<open>`${x}`\<close> produces for a string-valued field.\<close>

fun template :: "string field \<Rightarrow> string" where
  "template (Val s) = s"
| "template Absent = ''undefined''"
| "template Null = ''null''"

text \<open>
  A string is given by the bytes of its UTF-8 encoding: an ASCII character is one byte below
  128, and in well-formed text one string occurs in another exactly when its bytes occur in
  the bytes of the other.

  \<open>String.prototype.toLowerCase\<close> belongs to the platform and follows the Unicode case
  mappings of every cased letter. It is a parameter of the model: each function that
  lower-cases takes it as its argument \<open>toLowerCase\<close>, and the general statements hold for
  every such function. What the examples need of it is its value on ASCII text, where the
  letters \<open>A\<close> to \<open>Z\<close> (65 to 90) move to \<open>a\<close> to \<open>z\<close> and every other character stays.
\<close>

definition lower_char :: "char \<Rightarrow> char" where
  "lower_char c =
     (let n = (of_char c :: nat) in if 65 \<le> n \<and> n \<le> 90 then char_of (n + 32) else c)"

definition asciiLowerCase :: "string \<Rightarrow> string" where
  "asciiLowerCase s = map lower_char s"

definition ascii :: "string \<Rightarrow> bool" where
  "ascii s = list_all (\<lambda>c. (of_char c :: nat) < 128) s"

text \<open>A lower-casing function that is right on ASCII text.\<close>

definition lowers_ascii :: "(string \<Rightarrow> string) \<Rightarrow> bool" where
  "lowers_ascii toLowerCase = (\<forall>s. ascii s \<longrightarrow> toLowerCase s = asciiLowerCase s)"

text \<open>\<open>s.includes(k)\<close>: \<open>k\<close> occurs in \<open>s\<close> as a contiguous substring.\<close>

fun str_includes :: "string \<Rightarrow> string \<Rightarrow> bool" where
  "str_includes [] k = (k = [])"
| "str_includes (c # s) k = (prefix k (c # s) \<or> str_includes s k)"

section \<open>Numbers\<close>

text \<open>
  A JavaScript number: a finite IEEE 754 double, given by its exact rational value, or one
  of the two infinities, or NaN. The model does not tell \<open>-0\<close> from \<open>0\<close>.
\<close>

datatype number = Num rat | PosInfinity | NegInfinity | NaN

definition pow2 :: "int \<Rightarrow> rat" where
  "pow2 k = (if k \<ge> 0 then 2 ^ nat k else 1 / 2 ^ nat (- k))"

definition pow10 :: "int \<Rightarrow> rat" where
  "pow10 k = (if k \<ge> 0 then 10 ^ nat k else 1 / 10 ^ nat (- k))"

text \<open>For \<open>x > 0\<close>: the \<open>k\<close> with \<open>2 ^ k \<le> x < 2 ^ (k + 1)\<close>, from the bit lengths of numerator
  and denominator.\<close>

definition floor_log2 :: "rat \<Rightarrow> int" where
  "floor_log2 x =
     (let k = bitlen (fst (quotient_of x)) - bitlen (snd (quotient_of x))
      in if pow2 k \<le> x then k else k - 1)"

function digits10 :: "int \<Rightarrow> int" where
  "digits10 x = (if 0 < x then digits10 (x div 10) + 1 else 0)"
  by pat_completeness auto
termination
  by (relation "measure nat") auto

text \<open>For \<open>x > 0\<close>: the \<open>k\<close> with \<open>10 ^ k \<le> x < 10 ^ (k + 1)\<close>.\<close>

definition floor_log10 :: "rat \<Rightarrow> int" where
  "floor_log10 x =
     (let k = digits10 (fst (quotient_of x)) - digits10 (snd (quotient_of x))
      in if pow10 k \<le> x then k else k - 1)"

definition round_half_even :: "rat \<Rightarrow> int" where
  "round_half_even y =
     (let f = \<lfloor>y\<rfloor>; r = y - of_int f
      in if r < 1 / 2 then f else if 1 / 2 < r then f + 1 else if even f then f else f + 1)"

text \<open>
  The double nearest to a rational, ties to the even significand: 53 bits of significand,
  exponents from -1022 (below it the spacing of the subnormal numbers stays \<open>2 ^ -1074\<close>) to
  1023, overflow to the infinity of the sign. This is the rounding of every arithmetic
  operation on numbers and of reading a number literal.
\<close>

definition round_double :: "rat \<Rightarrow> number" where
  "round_double x =
     (if x = 0 then Num 0
      else let e = max (floor_log2 \<bar>x\<bar>) (- 1022);
               ulp = pow2 (e - 52);
               m = round_half_even (\<bar>x\<bar> / ulp)
           in if 1024 \<le> e \<or> (e = 1023 \<and> m = 2 ^ 53)
              then (if 0 < x then PosInfinity else NegInfinity)
              else Num ((if x < 0 then - 1 else 1) * of_int m * ulp))"

text \<open>\<open>a * b\<close> and \<open>a + b\<close> on numbers, \<open>-a\<close>, \<open>a > 0\<close> and \<open>a < 0\<close>.\<close>

fun num_mult :: "number \<Rightarrow> number \<Rightarrow> number" where
  "num_mult (Num a) (Num b) = round_double (a * b)"
| "num_mult NaN _ = NaN"
| "num_mult _ NaN = NaN"
| "num_mult (Num a) PosInfinity = (if a = 0 then NaN else if 0 < a then PosInfinity else NegInfinity)"
| "num_mult (Num a) NegInfinity = (if a = 0 then NaN else if 0 < a then NegInfinity else PosInfinity)"
| "num_mult PosInfinity (Num b) = (if b = 0 then NaN else if 0 < b then PosInfinity else NegInfinity)"
| "num_mult NegInfinity (Num b) = (if b = 0 then NaN else if 0 < b then NegInfinity else PosInfinity)"
| "num_mult PosInfinity PosInfinity = PosInfinity"
| "num_mult PosInfinity NegInfinity = NegInfinity"
| "num_mult NegInfinity PosInfinity = NegInfinity"
| "num_mult NegInfinity NegInfinity = PosInfinity"

fun num_add :: "number \<Rightarrow> number \<Rightarrow> number" where
  "num_add (Num a) (Num b) = round_double (a + b)"
| "num_add NaN _ = NaN"
| "num_add _ NaN = NaN"
| "num_add (Num a) PosInfinity = PosInfinity"
| "num_add (Num a) NegInfinity = NegInfinity"
| "num_add PosInfinity (Num b) = PosInfinity"
| "num_add NegInfinity (Num b) = NegInfinity"
| "num_add PosInfinity PosInfinity = PosInfinity"
| "num_add PosInfinity NegInfinity = NaN"
| "num_add NegInfinity PosInfinity = NaN"
| "num_add NegInfinity NegInfinity = NegInfinity"

fun num_neg :: "number \<Rightarrow> number" where
  "num_neg (Num a) = Num (- a)"
| "num_neg PosInfinity = NegInfinity"
| "num_neg NegInfinity = PosInfinity"
| "num_neg NaN = NaN"

fun positive :: "number \<Rightarrow> bool" where
  "positive (Num a) = (0 < a)"
| "positive PosInfinity = True"
| "positive NegInfinity = False"
| "positive NaN = False"

fun negative :: "number \<Rightarrow> bool" where
  "negative (Num a) = (a < 0)"
| "negative PosInfinity = False"
| "negative NegInfinity = True"
| "negative NaN = False"

text \<open>
  \<open>parseInt\<close> applied to a number parses the text the number prints as. A double prints
  the shortest decimal that reads back as the same double. From the double of \<open>1e-6\<close> up to,
  and without, \<open>1e21\<close> this is plain decimal notation, whose integer part is the number's own.
  Outside this range it is the form \<open>d.ddde+n\<close>, and the parse stops after the leading digit
  \<open>d\<close>: the leading digit of the number itself, unless a one-digit decimal next to it reads
  back as the same double and is what gets printed (as \<open>1e+23\<close> for the double just below
  \<open>10 ^ 23\<close>).
\<close>

definition leading_digit :: "rat \<Rightarrow> int" where
  "leading_digit x =
     (let l = floor_log10 x;
          d = \<lfloor>x / pow10 l\<rfloor>;
          lo = of_int d * pow10 l;
          hi = of_int (d + 1) * pow10 l;
          lo_ok = (round_double lo = Num x);
          hi_ok = (round_double hi = Num x)
      in if hi_ok \<and> (\<not> lo_ok \<or> hi - x < x - lo \<or> (hi - x = x - lo \<and> odd d))
         then (if d = 9 then 1 else d + 1) else d)"

definition trunc_int :: "rat \<Rightarrow> int" where
  "trunc_int x = (if x < 0 then - \<lfloor>- x\<rfloor> else \<lfloor>x\<rfloor>)"

fun parseInt :: "number \<Rightarrow> number" where
  "parseInt (Num x) =
     (if x = 0 then Num 0
      else if round_double (1 / 10 ^ 6) = Num \<bar>x\<bar> \<or> (1 / 10 ^ 6 \<le> \<bar>x\<bar> \<and> \<bar>x\<bar> < 10 ^ 21)
      then Num (of_int (trunc_int x))
      else Num (of_int (if x < 0 then - leading_digit \<bar>x\<bar> else leading_digit \<bar>x\<bar>)))"
| "parseInt PosInfinity = NaN"
| "parseInt NegInfinity = NaN"
| "parseInt NaN = NaN"

section \<open>Categories and the categorization engine\<close>

text \<open>
  A category document: its document id and the fields of its data, those of the
  \<open>Category\<close> interface. \<open>POST /budgets\<close> stores the categories of the request body as they
  come, so the data can have a field \<open>id\<close> of its own (\<open>id_field\<close>).
\<close>

record category_rec =
  doc_id :: string
  id_field :: "string field"
  cname :: "string field"
  camount :: "number field"
  ckeywords :: "string list field"
  budgetId :: "string field"
  color :: "string field"

text \<open>
  The \<open>id\<close> of the object \<open>{ id: doc.id, ...doc.data() }\<close> that
  \<open>recategorizeAllTransactions\<close> and the sync route load: a field \<open>id\<close> of the data, when there
  is one, takes the place of the document id.
\<close>

definition cid :: "category_rec \<Rightarrow> string field" where
  "cid c = (case id_field c of Absent \<Rightarrow> Val (doc_id c) | Null \<Rightarrow> Null | Val i \<Rightarrow> Val i)"

text \<open>The inner loop of \<open>findCategoryByKeywords\<close>: \<open>for (const keyword of category.keywords)\<close>.\<close>

fun keywordLoop :: "(string \<Rightarrow> string) \<Rightarrow> string \<Rightarrow> string list \<Rightarrow> bool" where
  "keywordLoop toLowerCase searchText [] = False"
| "keywordLoop toLowerCase searchText (keyword # rest) =
     (if str_includes searchText (toLowerCase keyword) then True else keywordLoop toLowerCase searchText rest)"

text \<open>The outer loop: \<open>for (const category of categories)\<close>, guarded by
  \<open>category.keywords && category.keywords.length > 0\<close>.\<close>

fun categoryLoop :: "(string \<Rightarrow> string) \<Rightarrow> string \<Rightarrow> category_rec list \<Rightarrow> category_rec option" where
  "categoryLoop toLowerCase searchText [] = None"
| "categoryLoop toLowerCase searchText (c # rest) =
     (case ckeywords c of
        Val ks \<Rightarrow>
          (if length ks > 0 \<and> keywordLoop toLowerCase searchText ks then Some c
           else categoryLoop toLowerCase searchText rest)
      | Absent \<Rightarrow> categoryLoop toLowerCase searchText rest
      | Null \<Rightarrow> categoryLoop toLowerCase searchText rest)"

definition searchTextOf :: "(string \<Rightarrow> string) \<Rightarrow> string field \<Rightarrow> string field \<Rightarrow> string" where
  "searchTextOf toLowerCase transactionName merchantName =
     toLowerCase (template transactionName @ '' '' @ or_empty merchantName)"

definition findCategoryByKeywords ::
  "(string \<Rightarrow> string) \<Rightarrow> category_rec list \<Rightarrow> string field \<Rightarrow> string field \<Rightarrow> category_rec option" where
  "findCategoryByKeywords toLowerCase categories transactionName merchantName =
     categoryLoop toLowerCase (searchTextOf toLowerCase transactionName merchantName) categories"

text \<open>
  \<open>plaidMappings\<close>, in the order \<open>Object.entries\<close> enumerates it (insertion order).
\<close>

definition plaidMappings :: "(string \<times> string list) list" where
  "plaidMappings =
     [(''FOOD_AND_DRINK'', [''food'', ''restaurant'', ''dining'', ''grocery'']),
      (''TRANSPORTATION'', [''gas'', ''uber'', ''lyft'', ''transit'', ''parking'']),
      (''ENTERTAINMENT'', [''movie'', ''theater'', ''concert'', ''game'']),
      (''SHOPPING'', [''amazon'', ''store'', ''retail'', ''mall'']),
      (''BILLS_AND_UTILITIES'', [''utility'', ''electric'', ''water'', ''internet'', ''phone'']),
      (''HEALTHCARE'', [''medical'', ''doctor'', ''pharmacy'', ''hospital'']),
      (''EDUCATION'', [''school'', ''tuition'', ''book'', ''course'']),
      (''TRAVEL'', [''hotel'', ''flight'', ''vacation'', ''trip''])]"

text \<open>Innermost loop of \<open>findCategoryByPlaidCategory\<close>: over the keywords of one category,
  testing \<open>keywords.some(k => keyword.toLowerCase().includes(k))\<close> against one bucket.\<close>

fun plaidKeywordLoop :: "(string \<Rightarrow> string) \<Rightarrow> string list \<Rightarrow> string list \<Rightarrow> bool" where
  "plaidKeywordLoop toLowerCase bucket [] = False"
| "plaidKeywordLoop toLowerCase bucket (keyword # rest) =
     (if list_ex (\<lambda>k. str_includes (toLowerCase keyword) k) bucket then True
      else plaidKeywordLoop toLowerCase bucket rest)"

fun plaidCategoryLoop :: "(string \<Rightarrow> string) \<Rightarrow> string list \<Rightarrow> category_rec list \<Rightarrow> category_rec option" where
  "plaidCategoryLoop toLowerCase bucket [] = None"
| "plaidCategoryLoop toLowerCase bucket (c # rest) =
     (case ckeywords c of
        Val ks \<Rightarrow>
          (if length ks > 0 \<and> plaidKeywordLoop toLowerCase bucket ks then Some c
           else plaidCategoryLoop toLowerCase bucket rest)
      | Absent \<Rightarrow> plaidCategoryLoop toLowerCase bucket rest
      | Null \<Rightarrow> plaidCategoryLoop toLowerCase bucket rest)"

text \<open>Outer loop: \<open>for (const [plaidCat, keywords] of Object.entries(plaidMappings))\<close>. A bucket
  whose label occurs in \<open>pfCategory\<close> but hits no category lets the loop go on.\<close>

fun plaidMappingLoop ::
  "(string \<Rightarrow> string) \<Rightarrow> (string \<times> string list) list \<Rightarrow> string \<Rightarrow> category_rec list \<Rightarrow> category_rec option" where
  "plaidMappingLoop toLowerCase [] pfCategory categories = None"
| "plaidMappingLoop toLowerCase ((plaidCat, bucket) # rest) pfCategory categories =
     (if str_includes pfCategory plaidCat then
        (case plaidCategoryLoop toLowerCase bucket categories of
           Some c \<Rightarrow> Some c
         | None \<Rightarrow> plaidMappingLoop toLowerCase rest pfCategory categories)
      else plaidMappingLoop toLowerCase rest pfCategory categories)"

definition findCategoryByPlaidCategory ::
  "(string \<Rightarrow> string) \<Rightarrow> category_rec list \<Rightarrow> string field \<Rightarrow> category_rec option" where
  "findCategoryByPlaidCategory toLowerCase categories pfCategory =
     (if \<not> truthy pfCategory then None
      else plaidMappingLoop toLowerCase plaidMappings (or_empty pfCategory) categories)"

text \<open>
  The two steps as \<open>recategorizeAllTransactions\<close> chains them: keyword matching first, the
  provider category only \<open>if (!assignedCategory && transaction.pf_category)\<close>.
\<close>

definition assignCategory ::
  "(string \<Rightarrow> string) \<Rightarrow> category_rec list \<Rightarrow> string field \<Rightarrow> string field \<Rightarrow> string field \<Rightarrow> category_rec option" where
  "assignCategory toLowerCase categories transactionName merchantName pfCategory =
     (case findCategoryByKeywords toLowerCase categories transactionName merchantName of
        Some c \<Rightarrow> Some c
      | None \<Rightarrow>
          (if truthy pfCategory then findCategoryByPlaidCategory toLowerCase categories pfCategory
           else None))"

text \<open>The sync route chains them with \<open>if (!assignedCategory)\<close> alone; the callee's own
  \<open>if (!pfCategory) return null\<close> does the rest.\<close>

definition assignCategorySync ::
  "(string \<Rightarrow> string) \<Rightarrow> category_rec list \<Rightarrow> string field \<Rightarrow> string field \<Rightarrow> string field \<Rightarrow> category_rec option" where
  "assignCategorySync toLowerCase categories transactionName merchantName pfCategory =
     (case findCategoryByKeywords toLowerCase categories transactionName merchantName of
        Some c \<Rightarrow> Some c
      | None \<Rightarrow> findCategoryByPlaidCategory toLowerCase categories pfCategory)"

text \<open>\<open>assignedCategory?.id || null\<close> and \<open>assignedCategory?.name || null\<close>.\<close>

definition of_opt :: "string option \<Rightarrow> string field" where
  "of_opt x = (case x of None \<Rightarrow> Null | Some s \<Rightarrow> Val s)"

definition newCategoryId :: "category_rec option \<Rightarrow> string option" where
  "newCategoryId assigned =
     (case assigned of None \<Rightarrow> None | Some c \<Rightarrow> or_null (cid c))"

definition newCategoryName :: "category_rec option \<Rightarrow> string option" where
  "newCategoryName assigned =
     (case assigned of None \<Rightarrow> None | Some c \<Rightarrow> or_null (cname c))"

text \<open>The categories of the first-match example of the specification.\<close>

definition catA :: category_rec where
  "catA = \<lparr>doc_id = ''a'', id_field = Absent, cname = Val ''A'', camount = Val (Num 0), ckeywords = Val [''foo''],
            budgetId = Absent, color = Absent\<rparr>"

definition catB :: category_rec where
  "catB = \<lparr>doc_id = ''b'', id_field = Absent, cname = Val ''B'', camount = Val (Num 0), ckeywords = Val [''foo'', ''bar''],
            budgetId = Absent, color = Absent\<rparr>"

text \<open>The categories all of whose keywords are ASCII text.\<close>

definition ascii_keywords :: "category_rec list \<Rightarrow> bool" where
  "ascii_keywords cats =
     list_all (\<lambda>c. case ckeywords c of Val ks \<Rightarrow> list_all ascii ks | Absent \<Rightarrow> True | Null \<Rightarrow> True) cats"

text \<open>A category whose keyword is written in upper case.\<close>

definition catUpper :: category_rec where
  "catUpper = \<lparr>doc_id = ''u'', id_field = Absent, cname = Val ''Coffee'', camount = Val (Num 0),
                ckeywords = Val [''COFFEE''], budgetId = Absent, color = Absent\<rparr>"

text \<open>The specification's wording of keyword matching: a category matches when one of its
  keywords, lower-cased, is a contiguous substring of the search string.\<close>

definition keywordMatches :: "(string \<Rightarrow> string) \<Rightarrow> string \<Rightarrow> category_rec \<Rightarrow> bool" where
  "keywordMatches toLowerCase searchText c =
     (case ckeywords c of
        Val ks \<Rightarrow> list_ex (\<lambda>k. sublist (toLowerCase k) searchText) ks
      | Absent \<Rightarrow> False
      | Null \<Rightarrow> False)"

text \<open>The specification's wording of the fallback: a category matches a bucket when one of
  its keywords, lower-cased, contains one of the bucket's generic sub-keywords.\<close>

definition bucketMatches :: "(string \<Rightarrow> string) \<Rightarrow> string list \<Rightarrow> category_rec \<Rightarrow> bool" where
  "bucketMatches toLowerCase bucket c =
     (case ckeywords c of
        Val ks \<Rightarrow> list_ex (\<lambda>keyword. list_ex (\<lambda>k. sublist k (toLowerCase keyword)) bucket) ks
      | Absent \<Rightarrow> False
      | Null \<Rightarrow> False)"

section \<open>The document store\<close>

text \<open>
  A stored transaction: the fields of the \<open>CategorizedTransaction\<close> interface and the
  \<open>removed\<close> marker. Server timestamps are modelled by the time of the commit that resolves
  them. No route of the server writes a field \<open>id\<close> into a transaction, so the \<open>id\<close> of a loaded
  transaction is its document id.
\<close>

record transaction_rec =
  transaction_id :: "string field"
  account_id :: "string field"
  date :: "string field"
  name :: "string field"
  merchant_name :: "string field"
  city :: "string field"
  amount :: "number field"
  outflow :: "number field"
  inflow :: "number field"
  currency :: "string field"
  pending :: "bool field"
  pf_category :: "string field"
  category :: "string field"
  categoryName :: "string field"
  updatedAt :: "nat field"
  removed :: "bool field"

definition empty_doc :: transaction_rec where
  "empty_doc = \<lparr>transaction_id = Absent, account_id = Absent, date = Absent, name = Absent,
     merchant_name = Absent, city = Absent, amount = Absent, outflow = Absent, inflow = Absent,
     currency = Absent, pending = Absent, pf_category = Absent, category = Absent,
     categoryName = Absent, updatedAt = Absent, removed = Absent\<rparr>"

text \<open>
  Merge semantics of \<open>set(ref, data, { merge: true })\<close> and of \<open>update(ref, data)\<close>: a field
  the data mentions (a value or \<open>null\<close>) replaces the stored one, a field it does not mention
  is kept.
\<close>

definition merge_field :: "'a field \<Rightarrow> 'a field \<Rightarrow> 'a field" where
  "merge_field old new = (case new of Absent \<Rightarrow> old | Null \<Rightarrow> Null | Val v \<Rightarrow> Val v)"

definition merge_doc :: "transaction_rec \<Rightarrow> transaction_rec \<Rightarrow> transaction_rec" where
  "merge_doc d p =
     \<lparr>transaction_id = merge_field (transaction_id d) (transaction_id p),
      account_id = merge_field (account_id d) (account_id p),
      date = merge_field (date d) (date p),
      name = merge_field (name d) (name p),
      merchant_name = merge_field (merchant_name d) (merchant_name p),
      city = merge_field (city d) (city p),
      amount = merge_field (amount d) (amount p),
      outflow = merge_field (outflow d) (outflow p),
      inflow = merge_field (inflow d) (inflow p),
      currency = merge_field (currency d) (currency p),
      pending = merge_field (pending d) (pending p),
      pf_category = merge_field (pf_category d) (pf_category p),
      category = merge_field (category d) (category p),
      categoryName = merge_field (categoryName d) (categoryName p),
      updatedAt = merge_field (updatedAt d) (updatedAt p),
      removed = merge_field (removed d) (removed p)\<rparr>"

text \<open>The document \<open>users/{uid}/private/plaid\<close>.\<close>

record token_rec =
  access_token :: "string field"
  item_id :: "string field"
  cursor :: "string field"
  lastSyncAt :: "nat field"

text \<open>An account as the account sync stores it, under the provider's account id.\<close>

record account_rec =
  acc_account_id :: string
  acc_name :: string
  official_name :: "string field"
  mask :: "string field"
  acc_subtype :: "string field"
  acc_type :: "string field"
  institution_id :: "string field"
  institution_name :: "string field"
  institution_logo :: string

text \<open>A budget; its creation and update timestamps, like those of a category, are read by
  no route and are left out.\<close>

record budget_rec =
  bname :: "string field"

text \<open>
  The five collections under \<open>users/{uid}\<close>. A collection is the list of its documents in
  the order a query enumerates them, each with its document id; Firestore keeps the ids of
  a collection distinct.
\<close>

record store =
  tokens :: "token_rec option"
  accounts :: "(string \<times> account_rec) list"
  transactions :: "(string \<times> transaction_rec) list"
  budgets :: "(string \<times> budget_rec) list"
  categories :: "category_rec list"

text \<open>\<open>set(doc(k), data, { merge: true })\<close> on a collection: merge into the document when it
  exists, create it from the data when it does not.\<close>

fun set_merge ::
  "string \<Rightarrow> transaction_rec \<Rightarrow> (string \<times> transaction_rec) list \<Rightarrow> (string \<times> transaction_rec) list" where
  "set_merge k p [] = [(k, p)]"
| "set_merge k p ((k', d) # rest) =
     (if k = k' then (k', merge_doc d p) # rest else (k', d) # set_merge k p rest)"

text \<open>The writes a batch can hold.\<close>

datatype write_op =
    TxSet string transaction_rec
  | TxUpdate string transaction_rec
  | TxDelete string
  | TokenSet string nat

text \<open>
  One write applied to the store. \<open>update\<close> on a missing document fails, which fails the
  batch. \<open>TokenSet c t\<close> is \<open>set(tokensDoc(uid), { cursor: c, lastSyncAt: t }, { merge: true })\<close>.
\<close>

fun apply_write :: "write_op \<Rightarrow> store \<Rightarrow> store option" where
  "apply_write (TxSet k p) st = Some (st\<lparr>transactions := set_merge k p (transactions st)\<rparr>)"
| "apply_write (TxUpdate k p) st =
     (if k \<in> fst ` set (transactions st)
      then Some (st\<lparr>transactions := set_merge k p (transactions st)\<rparr>)
      else None)"
| "apply_write (TxDelete k) st =
     Some (st\<lparr>transactions := filter (\<lambda>kd. fst kd \<noteq> k) (transactions st)\<rparr>)"
| "apply_write (TokenSet c t) st =
     Some (st\<lparr>tokens := Some
       (case tokens st of
          None \<Rightarrow> \<lparr>access_token = Absent, item_id = Absent, cursor = Val c, lastSyncAt = Val t\<rparr>
        | Some tok \<Rightarrow> tok\<lparr>cursor := Val c, lastSyncAt := Val t\<rparr>)\<rparr>)"

fun apply_writes :: "write_op list \<Rightarrow> store \<Rightarrow> store option" where
  "apply_writes [] st = Some st"
| "apply_writes (w # ws) st =
     (case apply_write w st of None \<Rightarrow> None | Some st' \<Rightarrow> apply_writes ws st')"

text \<open>
  \<open>await batch.commit()\<close>. The storage collaborator applies the writes of a batch together or
  not at all; \<open>ok\<close> says whether the storage service accepts this commit. \<open>None\<close> is the
  exception the commit throws, with nothing persisted.
\<close>

definition commit :: "bool \<Rightarrow> write_op list \<Rightarrow> store \<Rightarrow> store option" where
  "commit ok ws st = (if ok then apply_writes ws st else None)"

datatype error = Http400 string | Http404 string | Http500

section \<open>Full reconciliation\<close>

text \<open>
  The loop of \<open>recategorizeAllTransactions\<close> over the loaded transactions: one
  \<open>batch.update\<close> for each transaction whose recomputed category id differs from
  \<open>transaction.category || null\<close>.
\<close>

definition categoryPatch :: "category_rec option \<Rightarrow> nat \<Rightarrow> transaction_rec" where
  "categoryPatch assigned now =
     empty_doc\<lparr>category := of_opt (newCategoryId assigned),
               categoryName := of_opt (newCategoryName assigned),
               updatedAt := Val now\<rparr>"

fun recategorizeLoop ::
  "(string \<Rightarrow> string) \<Rightarrow> category_rec list \<Rightarrow> nat \<Rightarrow> (string \<times> transaction_rec) list \<Rightarrow> write_op list" where
  "recategorizeLoop toLowerCase cats now [] = []"
| "recategorizeLoop toLowerCase cats now ((tid, tx) # rest) =
     (let assigned = assignCategory toLowerCase cats (name tx) (merchant_name tx) (pf_category tx);
          currentCategoryId = or_null (category tx);
          newId = newCategoryId assigned
      in if currentCategoryId \<noteq> newId
         then TxUpdate tid (categoryPatch assigned now) # recategorizeLoop toLowerCase cats now rest
         else recategorizeLoop toLowerCase cats now rest)"

text \<open>
  The result is \<open>{ updated, total }\<close>; a failed commit is the exception that the calling
  route turns into status 500.
\<close>

definition recategorizeAllTransactions ::
  "(string \<Rightarrow> string) \<Rightarrow> bool \<Rightarrow> nat \<Rightarrow> store \<Rightarrow> (error + nat \<times> nat) \<times> store" where
  "recategorizeAllTransactions toLowerCase ok now st =
     (let batch = recategorizeLoop toLowerCase (categories st) now (transactions st);
          updatedCount = length batch
      in if updatedCount > 0
         then (case commit ok batch st of
                 None \<Rightarrow> (Inl Http500, st)
               | Some st' \<Rightarrow> (Inr (updatedCount, length (transactions st)), st'))
         else (Inr (updatedCount, length (transactions st)), st))"

section \<open>Transaction sync\<close>

text \<open>A transaction as the provider's sync primitive returns it.\<close>

record plaid_transaction =
  p_transaction_id :: string
  p_account_id :: string
  p_date :: string
  p_name :: "string field"
  p_merchant_name :: "string field"
  p_city :: "string field"
  p_amount :: number
  p_iso_currency_code :: "string field"
  p_pending :: bool
  p_primary :: "string field"

record sync_page =
  page_added :: "plaid_transaction list"
  page_modified :: "plaid_transaction list"
  page_removed :: "string list"
  next_cursor :: string
  has_more :: bool

text \<open>
  The provider: the answer to the \<open>n\<close>-th request of a sync call, given the cursor sent
  (\<open>nextCursor || undefined\<close>); \<open>None\<close> is a request that throws.
\<close>

type_synonym provider = "nat \<Rightarrow> string option \<Rightarrow> sync_page option"

type_synonym fetched = "plaid_transaction list \<times> plaid_transaction list \<times> string list \<times> string"

text \<open>
  The paging loop \<open>while (true) { ... if (!response.data.has_more) break; }\<close>. It has no
  bound of its own: a provider that always reports more pages keeps it running, which is the
  value \<open>None\<close>.
\<close>

partial_function (option) syncLoop ::
  "provider \<Rightarrow> nat \<Rightarrow> plaid_transaction list \<Rightarrow> plaid_transaction list \<Rightarrow> string list \<Rightarrow>
     string field \<Rightarrow> (error + fetched) option" where
  "syncLoop plaid n added modified removed' nextCursor =
     (case plaid n (or_null nextCursor) of
        None \<Rightarrow> Some (Inl Http500)
      | Some response \<Rightarrow>
          (if \<not> has_more response
           then Some (Inr (added @ page_added response, modified @ page_modified response,
                           removed' @ page_removed response, next_cursor response))
           else syncLoop plaid (Suc n) (added @ page_added response)
                  (modified @ page_modified response) (removed' @ page_removed response)
                  (Val (next_cursor response))))"

declare syncLoop.simps [code]

text \<open>The \<open>data\<close> object the sync route writes for an added or modified transaction.\<close>

definition syncData :: "(string \<Rightarrow> string) \<Rightarrow> category_rec list \<Rightarrow> nat \<Rightarrow> plaid_transaction \<Rightarrow> transaction_rec" where
  "syncData toLowerCase cats now t =
     (let assignedCategory = assignCategorySync toLowerCase cats (p_name t) (p_merchant_name t) (p_primary t);
          categoryName' = (case assignedCategory of None \<Rightarrow> Null | Some c \<Rightarrow> cname c);
          outflow' = (if positive (p_amount t) then Val (num_mult (p_amount t) (Num 100)) else Null);
          inflow' = (if negative (p_amount t) then Val (num_mult (num_neg (p_amount t)) (Num 100))
                     else Null)
      in \<lparr>transaction_id = Val (p_transaction_id t),
          account_id = Val (p_account_id t),
          date = Val (p_date t),
          name = Val (or_empty (p_name t)),
          merchant_name = Val (or_empty (p_merchant_name t)),
          city = Val (or_empty (p_city t)),
          amount = Val (num_mult (p_amount t) (Num 100)),
          outflow = outflow',
          inflow = inflow',
          currency = Val (or_empty (p_iso_currency_code t)),
          pending = Val (p_pending t),
          pf_category = of_opt (or_null (p_primary t)),
          category = of_opt (newCategoryId assignedCategory),
          categoryName = of_opt (or_null categoryName'),
          updatedAt = Val now,
          removed = Absent\<rparr>)"

definition upsertOps :: "(string \<Rightarrow> string) \<Rightarrow> category_rec list \<Rightarrow> nat \<Rightarrow> plaid_transaction list \<Rightarrow> write_op list" where
  "upsertOps toLowerCase cats now ts = map (\<lambda>t. TxSet (p_transaction_id t) (syncData toLowerCase cats now t)) ts"

text \<open>The write for an id of the \<open>removed\<close> list: \<open>{ removed: true, updatedAt }\<close>, merged.\<close>

definition removedData :: "nat \<Rightarrow> transaction_rec" where
  "removedData now = empty_doc\<lparr>removed := Val True, updatedAt := Val now\<rparr>"

definition removedOps :: "nat \<Rightarrow> string list \<Rightarrow> write_op list" where
  "removedOps now rs = map (\<lambda>r. TxSet r (removedData now)) rs"

text \<open>The one batch of the sync route: upserts, removed markers, cursor.\<close>

definition syncBatch ::
  "(string \<Rightarrow> string) \<Rightarrow> category_rec list \<Rightarrow> nat \<Rightarrow> fetched \<Rightarrow> write_op list" where
  "syncBatch toLowerCase cats now f =
     (case f of (added, modified, removed', nextCursor) \<Rightarrow>
        upsertOps toLowerCase cats now (added @ modified) @ removedOps now removed' @ [TokenSet nextCursor now])"

text \<open>
  The sync route up to and including \<open>await batch.commit()\<close>. The outer \<open>None\<close> is a call
  whose paging loop never ends.
\<close>

definition syncCommit ::
  "(string \<Rightarrow> string) \<Rightarrow> provider \<Rightarrow> bool \<Rightarrow> nat \<Rightarrow> store \<Rightarrow> ((error + fetched) \<times> store) option" where
  "syncCommit toLowerCase plaid ok now st =
     (case tokens st of
        None \<Rightarrow> Some (Inl (Http400 ''Bank not linked''), st)
      | Some tok \<Rightarrow>
          (case syncLoop plaid 0 [] [] [] (of_opt (or_null (cursor tok))) of
             None \<Rightarrow> None
           | Some (Inl e) \<Rightarrow> Some (Inl e, st)
           | Some (Inr f) \<Rightarrow>
               (case commit ok (syncBatch toLowerCase (categories st) now f) st of
                  None \<Rightarrow> Some (Inl Http500, st)
                | Some st' \<Rightarrow> Some (Inr f, st'))))"

text \<open>The whole route: the commit, then full reconciliation, then the counts.\<close>

definition syncTransactions ::
  "(string \<Rightarrow> string) \<Rightarrow> provider \<Rightarrow> bool \<Rightarrow> nat \<Rightarrow> bool \<Rightarrow> nat \<Rightarrow> store \<Rightarrow>
     ((error + nat \<times> nat \<times> nat \<times> nat) \<times> store) option" where
  "syncTransactions toLowerCase plaid ok now ok2 now2 st =
     (case syncCommit toLowerCase plaid ok now st of
        None \<Rightarrow> None
      | Some (Inl e, st') \<Rightarrow> Some (Inl e, st')
      | Some (Inr (added, modified, removed', nextCursor), st') \<Rightarrow>
          (case recategorizeAllTransactions toLowerCase ok2 now2 st' of
             (Inl e, st'') \<Rightarrow> Some (Inl Http500, st'')
           | (Inr (updated, total'), st'') \<Rightarrow>
               Some (Inr (length added, length modified, length removed', updated), st'')))"

section \<open>Editing a transaction\<close>

text \<open>The body of \<open>PUT /transactions/:transactionId\<close>; \<open>Absent\<close> is a field the body omits,
  and an amount, when given, is a JSON number.\<close>

record edit_body =
  e_name :: "string field"
  e_merchant_name :: "string field"
  e_amount :: "number option"
  e_date :: "string field"
  e_category :: "string field"

text \<open>\<open>updateData\<close>: only the fields the body provides, the amount through \<open>parseInt\<close>,
  the category name looked up, by document id, when a category is given.\<close>

definition editUpdateData :: "category_rec list \<Rightarrow> nat \<Rightarrow> edit_body \<Rightarrow> transaction_rec" where
  "editUpdateData cats now b =
     empty_doc\<lparr>updatedAt := Val now,
               name := e_name b,
               merchant_name := e_merchant_name b,
               amount := (case e_amount b of None \<Rightarrow> Absent | Some a \<Rightarrow> Val (parseInt a)),
               date := e_date b,
               category := e_category b,
               categoryName :=
                 (if e_category b = Absent then Absent
                  else if truthy (e_category b)
                  then (case find (\<lambda>c. doc_id c = or_empty (e_category b)) cats of
                          Some c \<Rightarrow> cname c
                        | None \<Rightarrow> Absent)
                  else Null)\<rparr>"

text \<open>
  The category found for the body has no \<open>name\<close>: \<open>updateData.categoryName\<close> is then
  \<open>undefined\<close>, a value that \<open>update\<close> refuses with an exception.
\<close>

definition namelessCategory :: "category_rec list \<Rightarrow> edit_body \<Rightarrow> bool" where
  "namelessCategory cats b =
     (truthy (e_category b) \<and>
      (case find (\<lambda>c. doc_id c = or_empty (e_category b)) cats of
         Some c \<Rightarrow> cname c = Absent
       | None \<Rightarrow> False))"

definition editTransaction ::
  "bool \<Rightarrow> nat \<Rightarrow> string \<Rightarrow> edit_body \<Rightarrow> store \<Rightarrow> (error + transaction_rec) \<times> store" where
  "editTransaction ok now transactionId b st =
     (case map_of (transactions st) transactionId of
        None \<Rightarrow> (Inl (Http404 ''Transaction not found''), st)
      | Some d \<Rightarrow>
          (if namelessCategory (categories st) b then (Inl Http500, st)
           else case commit ok [TxUpdate transactionId (editUpdateData (categories st) now b)] st of
             None \<Rightarrow> (Inl Http500, st)
           | Some st' \<Rightarrow>
               (case map_of (transactions st') transactionId of
                  None \<Rightarrow> (Inl Http500, st')
                | Some d' \<Rightarrow> (Inr d', st'))))"

section \<open>Budgets\<close>

text \<open>
  \<open>POST /budgets\<close>. \<open>gen i\<close> is the id the \<open>i\<close>-th call of \<open>doc()\<close> generates and \<open>wok i\<close>
  says whether the \<open>i\<close>-th awaited \<open>set\<close> of the request succeeds; a failing write throws and
  the route answers 500, with the earlier writes in place. Each category of the body is
  stored as it comes, with the budget's id added, in a new document. A body without \<open>name\<close>
  makes the budget's data hold \<open>undefined\<close>, which \<open>set\<close> refuses with an exception before
  anything is written. Creation and update timestamps of budgets and categories are not
  part of the model.
\<close>

fun createCategories ::
  "(nat \<Rightarrow> string) \<Rightarrow> (nat \<Rightarrow> bool) \<Rightarrow> nat \<Rightarrow> string \<Rightarrow> category_rec list \<Rightarrow> store \<Rightarrow> bool \<times> store" where
  "createCategories gen wok i bid [] st = (True, st)"
| "createCategories gen wok i bid (c # rest) st =
     (if wok i
      then createCategories gen wok (Suc i) bid rest
             (st\<lparr>categories := categories st @ [c\<lparr>doc_id := gen i, budgetId := Val bid\<rparr>]\<rparr>)
      else (False, st))"

text \<open>\<open>cat.amount || 0\<close>: zero and NaN are falsy.\<close>

definition amount_or_zero :: "number field \<Rightarrow> number" where
  "amount_or_zero f =
     (case f of Val a \<Rightarrow> (if a = NaN \<or> a = Num 0 then Num 0 else a)
      | Absent \<Rightarrow> Num 0 | Null \<Rightarrow> Num 0)"

definition totalBudget :: "category_rec list \<Rightarrow> number" where
  "totalBudget cs = foldl (\<lambda>sum' c. num_add sum' (amount_or_zero (camount c))) (Num 0) cs"

definition createBudget ::
  "(nat \<Rightarrow> string) \<Rightarrow> (nat \<Rightarrow> bool) \<Rightarrow> string field \<Rightarrow> category_rec list \<Rightarrow> store \<Rightarrow>
     (error + string \<times> number) \<times> store" where
  "createBudget gen wok name' cats st =
     (if budgets st \<noteq> [] then (Inl (Http400 ''User can only have one budget for now''), st)
      else if name' = Absent \<or> \<not> wok 0 then (Inl Http500, st)
      else (case createCategories gen wok 1 (gen 0) cats
                   (st\<lparr>budgets := budgets st @ [(gen 0, \<lparr>bname = name'\<rparr>)]\<rparr>) of
              (False, st') \<Rightarrow> (Inl Http500, st')
            | (True, st') \<Rightarrow> (Inr (gen 0, totalBudget cats), st')))"

section \<open>Deleting an account\<close>

text \<open>
  \<open>DELETE /accounts/:accountId\<close>: when \<open>deleteTransactions\<close> is set, one batch deletes the
  transactions the query \<open>where('account_id', '==', accountId)\<close> returns and is committed;
  then \<open>accountDoc.ref.delete()\<close> deletes the account in a write of its own. \<open>batch_ok\<close> and
  \<open>delete_ok\<close> say whether the storage service accepts each of the two.
\<close>

definition deleteAccount ::
  "bool \<Rightarrow> bool \<Rightarrow> string \<Rightarrow> bool \<Rightarrow> store \<Rightarrow> (error + bool) \<times> store" where
  "deleteAccount batch_ok delete_ok accountId deleteTransactions st =
     (case map_of (accounts st) accountId of
        None \<Rightarrow> (Inl (Http404 ''Account not found''), st)
      | Some account \<Rightarrow>
          (case (if deleteTransactions
                 then commit batch_ok
                        (map (\<lambda>kd. TxDelete (fst kd))
                           (filter (\<lambda>kd. account_id (snd kd) = Val accountId) (transactions st))) st
                 else Some st) of
             None \<Rightarrow> (Inl Http500, st)
           | Some st' \<Rightarrow>
               (if delete_ok
                then (Inr deleteTransactions,
                      st'\<lparr>accounts := filter (\<lambda>ka. fst ka \<noteq> accountId) (accounts st')\<rparr>)
                else (Inl Http500, st'))))"

text \<open>The specification's wording of the fallback as a whole: the first bucket, in the
  order of the table, whose label occurs in the provider category and that matches some
  category decides; the first category matching that bucket is selected.\<close>

definition providerFallback :: "(string \<Rightarrow> string) \<Rightarrow> category_rec list \<Rightarrow> string \<Rightarrow> category_rec option" where
  "providerFallback toLowerCase cats pf =
     (case filter (\<lambda>lb. sublist (fst lb) pf \<and> list_ex (bucketMatches toLowerCase (snd lb)) cats) plaidMappings of
        [] \<Rightarrow> None
      | lb # _ \<Rightarrow> find (bucketMatches toLowerCase (snd lb)) cats)"

text \<open>A user category with the keyword restaurant, for the fallback example.\<close>

definition catDining :: category_rec where
  "catDining = \<lparr>doc_id = ''d'', id_field = Absent, cname = Val ''Dining'', camount = Val (Num 0),
                 ckeywords = Val [''restaurant''], budgetId = Absent, color = Absent\<rparr>"

text \<open>What full reconciliation makes of one stored transaction: the category fields and the
  timestamp are rewritten when the recomputed category id differs from the stored one, and
  the document is left alone otherwise.\<close>

definition reconciled :: "(string \<Rightarrow> string) \<Rightarrow> category_rec list \<Rightarrow> nat \<Rightarrow> string \<times> transaction_rec \<Rightarrow> string \<times> transaction_rec" where
  "reconciled toLowerCase cats now kd =
     (let assigned = assignCategory toLowerCase cats (name (snd kd)) (merchant_name (snd kd)) (pf_category (snd kd))
      in if or_null (category (snd kd)) \<noteq> newCategoryId assigned
         then (fst kd, merge_doc (snd kd) (categoryPatch assigned now))
         else kd)"

text \<open>A small store for the examples: two categories and two transactions not yet assigned.\<close>

definition txFooMart :: transaction_rec where
  "txFooMart = empty_doc\<lparr>transaction_id := Val ''t1'', account_id := Val ''acc1'',
     date := Val ''2024-05-01'', name := Val ''Foo Mart'', merchant_name := Val [],
     amount := Val (Num 1250), pf_category := Null, category := Null, categoryName := Null,
     updatedAt := Val 1\<rparr>"

definition txBistro :: transaction_rec where
  "txBistro = empty_doc\<lparr>transaction_id := Val ''t2'', account_id := Val ''acc2'',
     date := Val ''2024-05-02'', name := Val ''Corner Bistro'', merchant_name := Val [],
     amount := Val (Num 4200), pf_category := Val ''FOOD_AND_DRINK'', category := Null,
     categoryName := Null, updatedAt := Val 1\<rparr>"

definition shopAccount :: "string \<Rightarrow> string \<Rightarrow> account_rec" where
  "shopAccount i n = \<lparr>acc_account_id = i, acc_name = n, official_name = Null, mask = Val ''0000'',
     acc_subtype = Val ''checking'', acc_type = Val ''depository'', institution_id = Val ''ins_1'',
     institution_name = Val ''Bank'', institution_logo = []\<rparr>"

definition shopToken :: token_rec where
  "shopToken = \<lparr>access_token = Val ''access-1'', item_id = Val ''item-1'', cursor = Null,
                 lastSyncAt = Absent\<rparr>"

definition shop :: store where
  "shop = \<lparr>tokens = Some shopToken,
            accounts = [(''acc1'', shopAccount ''acc1'' ''Checking''),
                        (''acc2'', shopAccount ''acc2'' ''Card'')],
            transactions = [(''t1'', txFooMart), (''t2'', txBistro)],
            budgets = [(''b1'', \<lparr>bname = Val ''My Budget''\<rparr>)],
            categories = [catA, catDining]\<rparr>"

section \<open>Updating a category\<close>

text \<open>The body of \<open>PUT /categories/:categoryId\<close>.\<close>

record category_body =
  b_name :: "string field"
  b_amount :: "number field"
  b_keywords :: "string list field"
  b_color :: "string field"

text \<open>
  The object passed to \<open>update\<close>: \<open>...(name && { name })\<close>,
  \<open>...(amount !== undefined && { amount })\<close>, \<open>...(keywords && { keywords })\<close> (an array is
  truthy, also the empty one), \<open>...(color && { color })\<close>.
\<close>

definition updateCategoryData :: "category_body \<Rightarrow> category_rec \<Rightarrow> category_rec" where
  "updateCategoryData b c =
     c\<lparr>cname := (if truthy (b_name b) then b_name b else cname c),
       camount := (if b_amount b \<noteq> Absent then b_amount b else camount c),
       ckeywords := (case b_keywords b of Val ks \<Rightarrow> Val ks | Absent \<Rightarrow> ckeywords c
                     | Null \<Rightarrow> ckeywords c),
       color := (if truthy (b_color b) then b_color b else color c)\<rparr>"

text \<open>
  The route: the update (which throws for a category that does not exist, or when the
  storage service refuses it), then full reconciliation; the answer carries its
  \<open>updated\<close> count.
\<close>

definition updateCategory ::
  "(string \<Rightarrow> string) \<Rightarrow> bool \<Rightarrow> bool \<Rightarrow> nat \<Rightarrow> string \<Rightarrow> category_body \<Rightarrow> store \<Rightarrow> (error + nat) \<times> store" where
  "updateCategory toLowerCase update_ok ok now categoryId b st =
     (if \<not> update_ok \<or> categoryId \<notin> doc_id ` set (categories st) then (Inl Http500, st)
      else (case recategorizeAllTransactions toLowerCase ok now
                   (st\<lparr>categories :=
                        map (\<lambda>c. if doc_id c = categoryId then updateCategoryData b c else c)
                          (categories st)\<rparr>) of
              (Inl e, st') \<Rightarrow> (Inl Http500, st')
            | (Inr (updated, total'), st') \<Rightarrow> (Inr updated, st')))"

text \<open>A store in which one transaction is assigned to the category Food, and a body that
  renames that category and leaves its keywords alone.\<close>

definition catFood :: category_rec where
  "catFood = \<lparr>doc_id = ''c1'', id_field = Absent, cname = Val ''Food'', camount = Val (Num 50000),
               ckeywords = Val [''restaurant''], budgetId = Val ''b1'', color = Absent\<rparr>"

definition txRestaurant :: transaction_rec where
  "txRestaurant = empty_doc\<lparr>transaction_id := Val ''t1'', account_id := Val ''acc1'',
     date := Val ''2024-05-03'', name := Val ''Harbour Restaurant'', merchant_name := Val [],
     amount := Val (Num 3100), pf_category := Null, category := Val ''c1'', categoryName := Val ''Food'',
     updatedAt := Val 1\<rparr>"

definition ledger :: store where
  "ledger = \<lparr>tokens = None, accounts = [], transactions = [(''t1'', txRestaurant)],
              budgets = [(''b1'', \<lparr>bname = Val ''My Budget''\<rparr>)], categories = [catFood]\<rparr>"

definition renameBody :: category_body where
  "renameBody = \<lparr>b_name = Val ''Dining Out'', b_amount = Absent, b_keywords = Absent,
                  b_color = Absent\<rparr>"

text \<open>The number a JSON number literal denotes.\<close>

definition jsonNumber :: "rat \<Rightarrow> number" where
  "jsonNumber x = round_double x"

text \<open>Provider transactions of 0.005 (half a cent, a currency with three decimals) and of
  1.15, and an edit body that carries an amount only.\<close>

definition tinyCharge :: plaid_transaction where
  "tinyCharge = \<lparr>p_transaction_id = ''t9'', p_account_id = ''acc1'', p_date = ''2024-05-04'',
     p_name = Val ''Converted fee'', p_merchant_name = Null, p_city = Absent,
     p_amount = jsonNumber (1 / 200), p_iso_currency_code = Val ''KWD'', p_pending = False,
     p_primary = Null\<rparr>"

definition smallCharge :: plaid_transaction where
  "smallCharge = \<lparr>p_transaction_id = ''t8'', p_account_id = ''acc1'', p_date = ''2024-05-04'',
     p_name = Val ''Parking meter'', p_merchant_name = Null, p_city = Absent,
     p_amount = jsonNumber (115 / 100), p_iso_currency_code = Val ''USD'', p_pending = False,
     p_primary = Null\<rparr>"

definition amountBody :: "number \<Rightarrow> edit_body" where
  "amountBody a = \<lparr>e_name = Absent, e_merchant_name = Absent, e_amount = Some a, e_date = Absent,
                    e_category = Absent\<rparr>"

section \<open>Sequences of merge writes\<close>

text \<open>The merge writes of a batch, applied to a collection one after the other.\<close>

fun merge_all ::
  "(string \<times> transaction_rec) list \<Rightarrow> (string \<times> transaction_rec) list \<Rightarrow> (string \<times> transaction_rec) list" where
  "merge_all [] xs = xs"
| "merge_all ((k, p) # kps) xs = merge_all kps (set_merge k p xs)"

text \<open>The document ids of a collection after merge writes to the ids \<open>ks\<close>.\<close>

fun add_keys :: "string list \<Rightarrow> string list \<Rightarrow> string list" where
  "add_keys [] ids = ids"
| "add_keys (k # ks) ids = add_keys ks (if k \<in> set ids then ids else ids @ [k])"

text \<open>The shape of the data the sync route writes for a transaction: every field but
  \<open>removed\<close> is mentioned.\<close>

definition upsert_shaped :: "transaction_rec \<Rightarrow> bool" where
  "upsert_shaped p =
     (transaction_id p \<noteq> Absent \<and> account_id p \<noteq> Absent \<and> date p \<noteq> Absent \<and> name p \<noteq> Absent
      \<and> merchant_name p \<noteq> Absent \<and> city p \<noteq> Absent \<and> amount p \<noteq> Absent \<and> outflow p \<noteq> Absent
      \<and> inflow p \<noteq> Absent \<and> currency p \<noteq> Absent \<and> pending p \<noteq> Absent \<and> pf_category p \<noteq> Absent
      \<and> category p \<noteq> Absent \<and> categoryName p \<noteq> Absent \<and> updatedAt p \<noteq> Absent
      \<and> removed p = Absent)"

definition upsertPairs ::
  "(string \<Rightarrow> string) \<Rightarrow> category_rec list \<Rightarrow> nat \<Rightarrow> plaid_transaction list \<Rightarrow> (string \<times> transaction_rec) list" where
  "upsertPairs toLowerCase cats now ts = map (\<lambda>t. (p_transaction_id t, syncData toLowerCase cats now t)) ts"

text \<open>A collection in which the documents with an id of \<open>ks\<close> carry \<open>updatedAt = now\<close>, every
  other field and every other document as they were.\<close>

definition restamp ::
  "nat \<Rightarrow> string list \<Rightarrow> (string \<times> transaction_rec) list \<Rightarrow> (string \<times> transaction_rec) list" where
  "restamp now ks xs = map (\<lambda>(k, d). (k, if k \<in> set ks then d\<lparr>updatedAt := Val now\<rparr> else d)) xs"

text \<open>A provider transaction with the id of a stored one, for the examples.\<close>

definition fooMartCharge :: plaid_transaction where
  "fooMartCharge = \<lparr>p_transaction_id = ''t1'', p_account_id = ''acc1'', p_date = ''2024-05-01'',
     p_name = Val ''Foo Mart'', p_merchant_name = Null, p_city = Absent,
     p_amount = Num (25 / 2), p_iso_currency_code = Val ''USD'', p_pending = False,
     p_primary = Val ''GENERAL_MERCHANDISE''\<rparr>"

text \<open>The pairs of document id and data that the removed markers write.\<close>

definition removedPairs :: "nat \<Rightarrow> string list \<Rightarrow> (string \<times> transaction_rec) list" where
  "removedPairs now rs = map (\<lambda>r. (r, removedData now)) rs"

text \<open>A provider that answers two pages, and one that fails on the second request.\<close>

definition page1 :: sync_page where
  "page1 = \<lparr>page_added = [fooMartCharge], page_modified = [], page_removed = [''t2''],
             next_cursor = ''cursor-1'', has_more = True\<rparr>"

definition page2 :: sync_page where
  "page2 = \<lparr>page_added = [tinyCharge], page_modified = [], page_removed = [''gone''],
             next_cursor = ''cursor-2'', has_more = False\<rparr>"

definition bank :: provider where
  "bank n c = (if n = 0 then Some page1 else if n = 1 then Some page2 else None)"

definition brokenBank :: provider where
  "brokenBank n c = (if n = 0 then Some page1 else None)"

section \<open>Keyword matching and the provider-category fallback\<close>

lemma str_includes_sublist: "str_includes s k = sublist k s"
  by (induction s) (auto simp: sublist_Cons_right)

lemma keywordLoop_ex: "keywordLoop toLowerCase s ks = list_ex (\<lambda>k. sublist (toLowerCase k) s) ks"
  by (induction ks) (auto simp: str_includes_sublist)

lemma categoryLoop_find: "categoryLoop toLowerCase s cs = find (keywordMatches toLowerCase s) cs"
  by (induction cs) (auto simp: keywordMatches_def keywordLoop_ex split: field.splits)

lemma plaidKeywordLoop_ex:
  "plaidKeywordLoop toLowerCase b ks =
     list_ex (\<lambda>keyword. list_ex (\<lambda>k. sublist k (toLowerCase keyword)) b) ks"
  by (induction ks) (auto simp: str_includes_sublist list_ex_iff)

lemma plaidCategoryLoop_find: "plaidCategoryLoop toLowerCase b cs = find (bucketMatches toLowerCase b) cs"
  by (induction cs) (auto simp: bucketMatches_def plaidKeywordLoop_ex split: field.splits)

lemma lowers_asciiD: "lowers_ascii lc \<Longrightarrow> ascii s \<Longrightarrow> lc s = asciiLowerCase s"
  by (simp add: lowers_ascii_def)

lemma lowers_ascii_asciiLowerCase: "lowers_ascii asciiLowerCase"
  by (simp add: lowers_ascii_def)

lemma keywordLoop_ascii:
  "lowers_ascii lc \<Longrightarrow> list_all ascii ks \<Longrightarrow> keywordLoop lc s ks = keywordLoop asciiLowerCase s ks"
  by (induction ks) (simp_all add: lowers_asciiD)

lemma categoryLoop_ascii:
  assumes "lowers_ascii lc"
  shows "ascii_keywords cats \<Longrightarrow> categoryLoop lc s cats = categoryLoop asciiLowerCase s cats"
proof (induction cats)
  case Nil
  show ?case by simp
next
  case (Cons c cats)
  from Cons.prems have "ascii_keywords cats"
    by (simp add: ascii_keywords_def)
  then have ih: "categoryLoop lc s cats = categoryLoop asciiLowerCase s cats"
    by (rule Cons.IH)
  show ?case
  proof (cases "ckeywords c")
    case (Val ks)
    with Cons.prems have "list_all ascii ks"
      by (simp add: ascii_keywords_def)
    with assms have "keywordLoop lc s ks = keywordLoop asciiLowerCase s ks"
      by (rule keywordLoop_ascii)
    then show ?thesis
      by (simp add: Val ih)
  qed (simp_all add: ih)
qed

lemma findCategoryByKeywords_ascii:
  "lowers_ascii lc \<Longrightarrow> ascii_keywords cats \<Longrightarrow> ascii (template n @ '' '' @ or_empty m) \<Longrightarrow>
   findCategoryByKeywords lc cats n m = findCategoryByKeywords asciiLowerCase cats n m"
  by (simp add: findCategoryByKeywords_def searchTextOf_def categoryLoop_ascii [of lc]
        lowers_asciiD [of lc])

lemma plaidKeywordLoop_ascii:
  "lowers_ascii lc \<Longrightarrow> list_all ascii ks \<Longrightarrow>
   plaidKeywordLoop lc b ks = plaidKeywordLoop asciiLowerCase b ks"
  by (induction ks) (simp_all add: lowers_asciiD)

lemma plaidCategoryLoop_ascii:
  assumes "lowers_ascii lc"
  shows "ascii_keywords cats \<Longrightarrow> plaidCategoryLoop lc b cats = plaidCategoryLoop asciiLowerCase b cats"
proof (induction cats)
  case Nil
  show ?case by simp
next
  case (Cons c cats)
  from Cons.prems have "ascii_keywords cats"
    by (simp add: ascii_keywords_def)
  then have ih: "plaidCategoryLoop lc b cats = plaidCategoryLoop asciiLowerCase b cats"
    by (rule Cons.IH)
  show ?case
  proof (cases "ckeywords c")
    case (Val ks)
    with Cons.prems have "list_all ascii ks"
      by (simp add: ascii_keywords_def)
    with assms have "plaidKeywordLoop lc b ks = plaidKeywordLoop asciiLowerCase b ks"
      by (rule plaidKeywordLoop_ascii)
    then show ?thesis
      by (simp add: Val ih)
  qed (simp_all add: ih)
qed

lemma plaidMappingLoop_ascii:
  assumes "lowers_ascii lc" and "ascii_keywords cats"
  shows "plaidMappingLoop lc ms pf cats = plaidMappingLoop asciiLowerCase ms pf cats"
proof (induction ms)
  case Nil
  show ?case by simp
next
  case (Cons a ms)
  obtain p b where a: "a = (p, b)"
    by (cases a)
  have "plaidCategoryLoop lc b cats = plaidCategoryLoop asciiLowerCase b cats"
    using assms by (rule plaidCategoryLoop_ascii)
  then show ?case
    by (simp add: a Cons.IH split: option.splits)
qed

lemma assignCategory_ascii:
  assumes "lowers_ascii lc" and "ascii_keywords cats"
    and "ascii (template n @ '' '' @ or_empty m)"
  shows "assignCategory lc cats n m pf = assignCategory asciiLowerCase cats n m pf"
proof -
  have k: "findCategoryByKeywords lc cats n m = findCategoryByKeywords asciiLowerCase cats n m"
    using assms by (rule findCategoryByKeywords_ascii)
  have p: "plaidMappingLoop lc ms s cats = plaidMappingLoop asciiLowerCase ms s cats" for ms s
    using assms(1,2) by (rule plaidMappingLoop_ascii)
  show ?thesis
    by (simp add: assignCategory_def k findCategoryByPlaidCategory_def p split: option.splits)
qed

lemma keywordLoop_lower:
  "map toLowerCase ks = map toLowerCase ks' \<Longrightarrow>
   keywordLoop toLowerCase s ks = keywordLoop toLowerCase s ks'"
  by (simp add: keywordLoop_ex list_ex_iff) (metis (no_types, lifting) image_iff list.set_map)

text \<open>
  C3. Keyword matching lower-cases \<open>name + " " + (merchant_name or "")\<close> and returns the first
  category, in the stored order of the categories, one of whose keywords occurs lower-cased
  as a substring of that search string. The match is case-insensitive: names and merchant
  names that lower-case to the same search string get the same result, and so do keyword
  lists that lower-case to the same list. For the categories A (keyword foo) and B (keywords
  foo, bar) a transaction named foobar gets A, and so does one named FooBAR; a keyword
  COFFEE matches the name Blue Bottle coffee; a name in which no keyword occurs gets no
  category.
\<close>

theorem findCategoryByKeywords_first_match:
  "findCategoryByKeywords toLowerCase cats transactionName merchantName =
     find (keywordMatches toLowerCase
            (toLowerCase (template transactionName @ '' '' @ or_empty merchantName))) cats
   \<and> (toLowerCase (template n @ '' '' @ or_empty m) = toLowerCase (template n' @ '' '' @ or_empty m') \<longrightarrow>
        findCategoryByKeywords toLowerCase cats n m = findCategoryByKeywords toLowerCase cats n' m')
   \<and> (map toLowerCase ks = map toLowerCase ks' \<longrightarrow>
        keywordLoop toLowerCase s ks = keywordLoop toLowerCase s ks')
   \<and> (lowers_ascii toLowerCase \<longrightarrow>
        findCategoryByKeywords toLowerCase [catA, catB] (Val ''foobar'') Absent = Some catA
        \<and> findCategoryByKeywords toLowerCase [catA, catB] (Val ''FooBAR'') Absent = Some catA
        \<and> findCategoryByKeywords toLowerCase [catUpper, catA] (Val ''Blue Bottle coffee'') (Val ''FOO'')
            = Some catUpper
        \<and> findCategoryByKeywords toLowerCase [catA, catB] (Val ''Corner Bistro'') Null = None)
   \<and> cname catA = Val ''A''"
proof (intro conjI impI)
  show "findCategoryByKeywords toLowerCase cats transactionName merchantName =
     find (keywordMatches toLowerCase
            (toLowerCase (template transactionName @ '' '' @ or_empty merchantName))) cats"
    by (simp add: findCategoryByKeywords_def categoryLoop_find searchTextOf_def)
next
  assume "toLowerCase (template n @ '' '' @ or_empty m) = toLowerCase (template n' @ '' '' @ or_empty m')"
  then show "findCategoryByKeywords toLowerCase cats n m = findCategoryByKeywords toLowerCase cats n' m'"
    by (simp add: findCategoryByKeywords_def searchTextOf_def)
next
  assume "map toLowerCase ks = map toLowerCase ks'"
  then show "keywordLoop toLowerCase s ks = keywordLoop toLowerCase s ks'"
    by (rule keywordLoop_lower)
next
  assume h: "lowers_ascii toLowerCase"
  have ab: "ascii_keywords [catA, catB]" and ua: "ascii_keywords [catUpper, catA]"
    by code_simp+
  have "ascii (template (Val ''foobar'') @ '' '' @ or_empty Absent)"
    by code_simp
  moreover have "findCategoryByKeywords asciiLowerCase [catA, catB] (Val ''foobar'') Absent = Some catA"
    by code_simp
  ultimately show "findCategoryByKeywords toLowerCase [catA, catB] (Val ''foobar'') Absent = Some catA"
    using h ab by (simp only: findCategoryByKeywords_ascii)
  have "ascii (template (Val ''FooBAR'') @ '' '' @ or_empty Absent)"
    by code_simp
  moreover have "findCategoryByKeywords asciiLowerCase [catA, catB] (Val ''FooBAR'') Absent = Some catA"
    by code_simp
  ultimately show "findCategoryByKeywords toLowerCase [catA, catB] (Val ''FooBAR'') Absent = Some catA"
    using h ab by (simp only: findCategoryByKeywords_ascii)
  have "ascii (template (Val ''Blue Bottle coffee'') @ '' '' @ or_empty (Val ''FOO''))"
    by code_simp
  moreover have "findCategoryByKeywords asciiLowerCase [catUpper, catA] (Val ''Blue Bottle coffee'')
      (Val ''FOO'') = Some catUpper"
    by code_simp
  ultimately show "findCategoryByKeywords toLowerCase [catUpper, catA] (Val ''Blue Bottle coffee'')
      (Val ''FOO'') = Some catUpper"
    using h ua by (simp only: findCategoryByKeywords_ascii)
  have "ascii (template (Val ''Corner Bistro'') @ '' '' @ or_empty Null)"
    by code_simp
  moreover have "findCategoryByKeywords asciiLowerCase [catA, catB] (Val ''Corner Bistro'') Null = None"
    by code_simp
  ultimately show "findCategoryByKeywords toLowerCase [catA, catB] (Val ''Corner Bistro'') Null = None"
    using h ab by (simp only: findCategoryByKeywords_ascii)
next
  show "cname catA = Val ''A''" by (simp add: catA_def)
qed

theorem findCategoryByKeywords_first_match_witness:
  "lowers_ascii asciiLowerCase
   \<and> asciiLowerCase (template (Val ''FooBAR'') @ '' '' @ or_empty Absent)
       = asciiLowerCase (template (Val ''foobar'') @ '' '' @ or_empty Null)
   \<and> findCategoryByKeywords asciiLowerCase [catA, catB] (Val ''FooBAR'') Absent
       = findCategoryByKeywords asciiLowerCase [catA, catB] (Val ''foobar'') Null
   \<and> map asciiLowerCase [''COFFEE''] = map asciiLowerCase [''Coffee'']
   \<and> keywordLoop asciiLowerCase ''blue bottle coffee foo'' [''COFFEE'']
       = keywordLoop asciiLowerCase ''blue bottle coffee foo'' [''Coffee'']
   \<and> findCategoryByKeywords asciiLowerCase [catA, catB] (Val ''FooBAR'') Absent = Some catA
   \<and> findCategoryByKeywords asciiLowerCase [catUpper, catA] (Val ''Blue Bottle coffee'') (Val ''FOO'')
       = Some catUpper"
proof -
  have l: "lowers_ascii asciiLowerCase"
    by (rule lowers_ascii_asciiLowerCase)
  have e: "asciiLowerCase (template (Val ''FooBAR'') @ '' '' @ or_empty Absent)
       = asciiLowerCase (template (Val ''foobar'') @ '' '' @ or_empty Null)"
    by code_simp
  have k: "map asciiLowerCase [''COFFEE''] = map asciiLowerCase [''Coffee'']"
    by code_simp
  note t = findCategoryByKeywords_first_match [where toLowerCase = asciiLowerCase
      and n = "Val ''FooBAR''" and m = Absent and n' = "Val ''foobar''" and m' = Null
      and cats = "[catA, catB]" and ks = "[''COFFEE'']" and ks' = "[''Coffee'']"
      and s = "''blue bottle coffee foo''"]
  from t e have "findCategoryByKeywords asciiLowerCase [catA, catB] (Val ''FooBAR'') Absent
       = findCategoryByKeywords asciiLowerCase [catA, catB] (Val ''foobar'') Null"
    by blast
  moreover from t k have "keywordLoop asciiLowerCase ''blue bottle coffee foo'' [''COFFEE'']
       = keywordLoop asciiLowerCase ''blue bottle coffee foo'' [''Coffee'']"
    by blast
  moreover from t l have
    "findCategoryByKeywords asciiLowerCase [catA, catB] (Val ''FooBAR'') Absent = Some catA"
    "findCategoryByKeywords asciiLowerCase [catUpper, catA] (Val ''Blue Bottle coffee'') (Val ''FOO'')
       = Some catUpper"
    by blast+
  ultimately show ?thesis using l e k by blast
qed

lemma plaidMappingLoop_filter:
  "plaidMappingLoop toLowerCase ms pf cats =
     (case filter (\<lambda>lb. sublist (fst lb) pf \<and> list_ex (bucketMatches toLowerCase (snd lb)) cats) ms of
        [] \<Rightarrow> None
      | lb # _ \<Rightarrow> find (bucketMatches toLowerCase (snd lb)) cats)"
proof (induction ms)
  case Nil
  show ?case by simp
next
  case (Cons a ms)
  obtain l b where a: "a = (l, b)" by (cases a)
  show ?case
  proof (cases "find (bucketMatches toLowerCase b) cats")
    case None
    then have "\<not> list_ex (bucketMatches toLowerCase b) cats"
      by (simp add: find_None_iff list_ex_iff)
    with None Cons show ?thesis
      by (simp add: a plaidCategoryLoop_find str_includes_sublist)
  next
    case (Some c)
    then have "list_ex (bucketMatches toLowerCase b) cats"
      by (metis find_None_iff list_ex_iff option.distinct(1))
    with Some Cons show ?thesis
      by (simp add: a plaidCategoryLoop_find str_includes_sublist)
  qed
qed

lemma food_loop:
  "plaidMappingLoop toLowerCase plaidMappings ''FOOD_AND_DRINK'' cats =
     find (bucketMatches toLowerCase [''food'', ''restaurant'', ''dining'', ''grocery'']) cats"
  by (simp add: plaidMappings_def plaidCategoryLoop_find split: option.splits)

text \<open>
  C4. The provider-category fallback is consulted only when keyword matching finds nothing,
  in the sync route as in full reconciliation. Then, for a truthy provider category, the
  first bucket whose label occurs in it and that matches a user category selects the first
  user category having a keyword that contains one of the bucket's sub-keywords. With no
  keyword match and the provider category FOOD_AND_DRINK the first category with a keyword
  containing food, restaurant, dining or grocery is assigned (here the one with the keyword
  restaurant); with neither a keyword match nor a bucket match the result is null.
\<close>

theorem assignCategory_fallback:
  "assignCategorySync toLowerCase cats n m pf = assignCategory toLowerCase cats n m pf
   \<and> (findCategoryByKeywords toLowerCase cats n m = Some c \<longrightarrow> assignCategory toLowerCase cats n m pf = Some c)
   \<and> (findCategoryByKeywords toLowerCase cats n m = None \<longrightarrow>
        assignCategory toLowerCase cats n m pf =
          (if truthy pf then providerFallback toLowerCase cats (or_empty pf) else None))
   \<and> (findCategoryByKeywords toLowerCase cats n m = None \<longrightarrow>
        assignCategory toLowerCase cats n m (Val ''FOOD_AND_DRINK'') =
          find (bucketMatches toLowerCase [''food'', ''restaurant'', ''dining'', ''grocery'']) cats)
   \<and> (lowers_ascii toLowerCase \<longrightarrow>
        assignCategory toLowerCase [catA, catDining] (Val ''Corner Bistro'') (Val [])
            (Val ''FOOD_AND_DRINK'') = Some catDining
        \<and> assignCategory toLowerCase [catA, catDining] (Val ''Corner Bistro'') (Val [])
            (Val ''INCOME'') = None
        \<and> assignCategory toLowerCase [catA, catDining] (Val ''Corner Bistro'') (Val []) Null = None)"
proof (intro conjI impI)
  show "assignCategorySync toLowerCase cats n m pf = assignCategory toLowerCase cats n m pf"
    by (simp add: assignCategorySync_def assignCategory_def findCategoryByPlaidCategory_def
          split: option.splits)
next
  assume "findCategoryByKeywords toLowerCase cats n m = Some c"
  then show "assignCategory toLowerCase cats n m pf = Some c"
    by (simp add: assignCategory_def)
next
  assume "findCategoryByKeywords toLowerCase cats n m = None"
  then show "assignCategory toLowerCase cats n m pf =
          (if truthy pf then providerFallback toLowerCase cats (or_empty pf) else None)"
    by (simp add: assignCategory_def findCategoryByPlaidCategory_def providerFallback_def
          plaidMappingLoop_filter)
next
  assume "findCategoryByKeywords toLowerCase cats n m = None"
  then show "assignCategory toLowerCase cats n m (Val ''FOOD_AND_DRINK'') =
          find (bucketMatches toLowerCase [''food'', ''restaurant'', ''dining'', ''grocery'']) cats"
    by (simp add: assignCategory_def findCategoryByPlaidCategory_def food_loop)
next
  assume h: "lowers_ascii toLowerCase"
  have k: "ascii_keywords [catA, catDining]"
    by code_simp
  have a: "ascii (template (Val ''Corner Bistro'') @ '' '' @ or_empty (Val []))"
    by code_simp
  note low = assignCategory_ascii [OF h k a]
  have "assignCategory asciiLowerCase [catA, catDining] (Val ''Corner Bistro'') (Val [])
            (Val ''FOOD_AND_DRINK'') = Some catDining"
    by code_simp
  then show "assignCategory toLowerCase [catA, catDining] (Val ''Corner Bistro'') (Val [])
            (Val ''FOOD_AND_DRINK'') = Some catDining"
    by (simp only: low)
  have "assignCategory asciiLowerCase [catA, catDining] (Val ''Corner Bistro'') (Val [])
            (Val ''INCOME'') = None"
    by code_simp
  then show "assignCategory toLowerCase [catA, catDining] (Val ''Corner Bistro'') (Val [])
            (Val ''INCOME'') = None"
    by (simp only: low)
  have "assignCategory asciiLowerCase [catA, catDining] (Val ''Corner Bistro'') (Val []) Null = None"
    by code_simp
  then show "assignCategory toLowerCase [catA, catDining] (Val ''Corner Bistro'') (Val []) Null = None"
    by (simp only: low)
qed

theorem assignCategory_fallback_witness:
  "lowers_ascii asciiLowerCase
   \<and> assignCategory asciiLowerCase [catA, catDining] (Val ''Corner Bistro'') (Val [])
         (Val ''FOOD_AND_DRINK'') = Some catDining
   \<and> findCategoryByKeywords asciiLowerCase [catA, catDining] (Val ''Corner Bistro'') (Val []) = None
   \<and> assignCategory asciiLowerCase [catA, catDining] (Val ''Corner Bistro'') (Val []) (Val ''FOOD_AND_DRINK'')
        = find (bucketMatches asciiLowerCase [''food'', ''restaurant'', ''dining'', ''grocery'']) [catA, catDining]
   \<and> assignCategory asciiLowerCase [catA, catDining] (Val ''Corner Bistro'') (Val []) (Val ''FOOD_AND_DRINK'')
        = providerFallback asciiLowerCase [catA, catDining] ''FOOD_AND_DRINK''
   \<and> findCategoryByKeywords asciiLowerCase [catA, catDining] (Val ''Foo Mart'') Absent = Some catA
   \<and> assignCategory asciiLowerCase [catA, catDining] (Val ''Foo Mart'') Absent (Val ''FOOD_AND_DRINK'') = Some catA"
proof -
  have none: "findCategoryByKeywords asciiLowerCase [catA, catDining] (Val ''Corner Bistro'') (Val []) = None"
    by code_simp
  have some: "findCategoryByKeywords asciiLowerCase [catA, catDining] (Val ''Foo Mart'') Absent = Some catA"
    by code_simp
  note fb = assignCategory_fallback [where toLowerCase = asciiLowerCase and cats = "[catA, catDining]"
      and n = "Val ''Corner Bistro''" and m = "Val []" and pf = "Val ''FOOD_AND_DRINK''" and c = catA]
  note kw = assignCategory_fallback [where toLowerCase = asciiLowerCase and cats = "[catA, catDining]"
      and n = "Val ''Foo Mart''" and m = Absent and pf = "Val ''FOOD_AND_DRINK''" and c = catA]
  have l: "lowers_ascii asciiLowerCase"
    by (rule lowers_ascii_asciiLowerCase)
  from fb l have inst: "assignCategory asciiLowerCase [catA, catDining] (Val ''Corner Bistro'') (Val [])
         (Val ''FOOD_AND_DRINK'') = Some catDining"
    by blast
  have tr: "truthy (Val ''FOOD_AND_DRINK'')" and oe: "or_empty (Val ''FOOD_AND_DRINK'') = ''FOOD_AND_DRINK''"
    by simp_all
  from fb none have
    "assignCategory asciiLowerCase [catA, catDining] (Val ''Corner Bistro'') (Val []) (Val ''FOOD_AND_DRINK'')
       = find (bucketMatches asciiLowerCase [''food'', ''restaurant'', ''dining'', ''grocery'']) [catA, catDining]"
    by blast
  moreover from fb none have
    "assignCategory asciiLowerCase [catA, catDining] (Val ''Corner Bistro'') (Val []) (Val ''FOOD_AND_DRINK'')
       = (if truthy (Val ''FOOD_AND_DRINK'')
          then providerFallback asciiLowerCase [catA, catDining] (or_empty (Val ''FOOD_AND_DRINK'')) else None)"
    by blast
  then have
    "assignCategory asciiLowerCase [catA, catDining] (Val ''Corner Bistro'') (Val []) (Val ''FOOD_AND_DRINK'')
       = providerFallback asciiLowerCase [catA, catDining] ''FOOD_AND_DRINK''"
    by (simp only: tr oe if_True)
  moreover from kw some have
    "assignCategory asciiLowerCase [catA, catDining] (Val ''Foo Mart'') Absent (Val ''FOOD_AND_DRINK'') = Some catA"
    by blast
  ultimately show ?thesis using l inst none some by blast
qed

section \<open>The store and full reconciliation\<close>

lemma set_merge_keys:
  "map fst (set_merge k p xs) = (if k \<in> fst ` set xs then map fst xs else map fst xs @ [k])"
proof (induction xs)
  case Nil
  show ?case by simp
next
  case (Cons a xs)
  obtain k' d where a: "a = (k', d)" by (cases a)
  from Cons show ?case by (cases "k = k'") (simp_all add: a)
qed

lemma map_of_set_merge:
  "map_of (set_merge k p xs) k' =
     (if k' = k then Some (case map_of xs k of None \<Rightarrow> p | Some d \<Rightarrow> merge_doc d p)
      else map_of xs k')"
  by (induction xs) auto

lemma set_merge_append:
  "k \<notin> fst ` set pre \<Longrightarrow> set_merge k p (pre @ xs) = pre @ set_merge k p xs"
  by (induction pre) auto

lemma recategorizeLoop_apply:
  "distinct (map fst (pre @ rest)) \<Longrightarrow>
   apply_writes (recategorizeLoop toLowerCase cats now rest) (st\<lparr>transactions := pre @ rest\<rparr>) =
     Some (st\<lparr>transactions := pre @ map (reconciled toLowerCase cats now) rest\<rparr>)"
proof (induction rest arbitrary: pre)
  case Nil
  show ?case by simp
next
  case (Cons kd rest)
  obtain k tx where kd: "kd = (k, tx)" by (cases kd)
  from Cons.prems have notin: "k \<notin> fst ` set pre" and d': "distinct (map fst ((pre @ [(k, tx)]) @ rest))"
    by (auto simp: kd)
  define a where "a = assignCategory toLowerCase cats (name tx) (merchant_name tx) (pf_category tx)"
  show ?case
  proof (cases "or_null (category tx) \<noteq> newCategoryId a")
    case True
    have d'': "distinct (map fst ((pre @ [(k, merge_doc tx (categoryPatch a now))]) @ rest))"
      using d' by simp
    have "apply_writes (recategorizeLoop toLowerCase cats now (kd # rest)) (st\<lparr>transactions := pre @ kd # rest\<rparr>)
        = apply_writes (recategorizeLoop toLowerCase cats now rest)
            (st\<lparr>transactions := (pre @ [(k, merge_doc tx (categoryPatch a now))]) @ rest\<rparr>)"
      using True notin by (simp add: kd a_def Let_def set_merge_append)
    also have "\<dots> = Some (st\<lparr>transactions := (pre @ [(k, merge_doc tx (categoryPatch a now))]) @ map (reconciled toLowerCase cats now) rest\<rparr>)"
      by (rule Cons.IH [OF d''])
    finally show ?thesis using True by (simp add: kd reconciled_def a_def Let_def)
  next
    case False
    have "apply_writes (recategorizeLoop toLowerCase cats now (kd # rest)) (st\<lparr>transactions := pre @ kd # rest\<rparr>)
        = apply_writes (recategorizeLoop toLowerCase cats now rest) (st\<lparr>transactions := (pre @ [(k, tx)]) @ rest\<rparr>)"
      using False by (simp add: kd a_def Let_def)
    also have "\<dots> = Some (st\<lparr>transactions := (pre @ [(k, tx)]) @ map (reconciled toLowerCase cats now) rest\<rparr>)"
      by (rule Cons.IH [OF d'])
    finally show ?thesis using False by (simp add: kd reconciled_def a_def Let_def)
  qed
qed

lemma or_null_of_opt_or_null: "or_null (of_opt (or_null f)) = or_null f"
  by (cases f) (auto simp: or_null_def of_opt_def)

lemma or_null_newCategoryId: "or_null (of_opt (newCategoryId a)) = newCategoryId a"
proof (cases a)
  case None
  then show ?thesis by (simp add: newCategoryId_def of_opt_def or_null_def)
next
  case (Some c)
  then show ?thesis by (simp add: newCategoryId_def or_null_of_opt_or_null)
qed

lemma of_opt_not_Absent: "of_opt x \<noteq> Absent"
  by (cases x) (auto simp: of_opt_def)

lemma merge_field_of_opt: "merge_field old (of_opt x) = of_opt x"
  by (cases x) (auto simp: of_opt_def merge_field_def)

lemma merge_field_simps [simp]:
  "merge_field old Absent = old" "merge_field old Null = Null" "merge_field old (Val v) = Val v"
  by (simp_all add: merge_field_def)

lemma merge_categoryPatch:
  "merge_doc tx (categoryPatch a now) =
     tx\<lparr>category := of_opt (newCategoryId a), categoryName := of_opt (newCategoryName a),
        updatedAt := Val now\<rparr>"
  by (cases tx) (simp add: merge_doc_def categoryPatch_def empty_doc_def merge_field_of_opt)

lemma reconciled_fixed:
  "recategorizeLoop toLowerCase cats now' (map (reconciled toLowerCase cats now) txs) = []"
proof (induction txs)
  case Nil
  show ?case by simp
next
  case (Cons kd txs)
  obtain k tx where kd: "kd = (k, tx)" by (cases kd)
  show ?case using Cons
    by (simp add: kd reconciled_def Let_def merge_categoryPatch or_null_newCategoryId)
qed

lemma recategorizeLoop_Nil:
  "recategorizeLoop toLowerCase cats now txs = [] \<Longrightarrow> map (reconciled toLowerCase cats now) txs = txs"
proof (induction txs)
  case Nil
  show ?case by simp
next
  case (Cons kd txs)
  obtain k tx where kd: "kd = (k, tx)" by (cases kd)
  from Cons.prems have same:
    "or_null (category tx) = newCategoryId (assignCategory toLowerCase cats (name tx) (merchant_name tx) (pf_category tx))"
    and rest: "recategorizeLoop toLowerCase cats now txs = []"
    by (auto simp: kd Let_def split: if_splits)
  from same Cons.IH [OF rest] show ?case
    by (simp add: kd reconciled_def Let_def)
qed

lemma recategorize_result:
  assumes dist: "distinct (map fst (transactions st))"
    and run: "recategorizeAllTransactions toLowerCase ok now st = (Inr r, st')"
  shows "st' = st\<lparr>transactions := map (reconciled toLowerCase (categories st) now) (transactions st)\<rparr>
         \<and> r = (length (recategorizeLoop toLowerCase (categories st) now (transactions st)), length (transactions st))"
proof (cases "recategorizeLoop toLowerCase (categories st) now (transactions st) = []")
  case True
  with run have "st' = st" and "r = (0, length (transactions st))"
    by (auto simp: recategorizeAllTransactions_def Let_def)
  with recategorizeLoop_Nil [OF True] True show ?thesis by simp
next
  case False
  from dist have "apply_writes (recategorizeLoop toLowerCase (categories st) now (transactions st))
       (st\<lparr>transactions := [] @ transactions st\<rparr>) =
     Some (st\<lparr>transactions := [] @ map (reconciled toLowerCase (categories st) now) (transactions st)\<rparr>)"
    by (intro recategorizeLoop_apply) simp
  then have ap: "apply_writes (recategorizeLoop toLowerCase (categories st) now (transactions st)) st =
     Some (st\<lparr>transactions := map (reconciled toLowerCase (categories st) now) (transactions st)\<rparr>)"
    by simp
  from run False ap show ?thesis
    by (auto simp: recategorizeAllTransactions_def Let_def commit_def split: if_splits option.splits)
qed

text \<open>
  C5. Full reconciliation is idempotent: after a run that returned, a second run with no
  write in between recomputes for every transaction the category id the first run stored,
  reports updated = 0 and leaves the store as it is.
\<close>

theorem recategorize_idempotent:
  assumes "distinct (map fst (transactions st))"
    and "recategorizeAllTransactions toLowerCase ok now st = (Inr r, st')"
  shows "recategorizeAllTransactions toLowerCase ok' now' st' = (Inr (0, length (transactions st)), st')"
proof -
  from recategorize_result [OF assms]
  have st': "st' = st\<lparr>transactions := map (reconciled toLowerCase (categories st) now) (transactions st)\<rparr>"
    by simp
  then have "recategorizeLoop toLowerCase (categories st') now' (transactions st') = []"
    by (simp add: reconciled_fixed)
  moreover have "length (transactions st') = length (transactions st)"
    by (simp add: st')
  ultimately show ?thesis
    by (simp add: recategorizeAllTransactions_def Let_def)
qed

theorem recategorize_idempotent_witness:
  "distinct (map fst (transactions shop))
   \<and> fst (recategorizeAllTransactions asciiLowerCase True 7 shop) = Inr (2, 2)
   \<and> recategorizeAllTransactions asciiLowerCase True 8 (snd (recategorizeAllTransactions asciiLowerCase True 7 shop))
       = (Inr (0, 2), snd (recategorizeAllTransactions asciiLowerCase True 7 shop))"
proof -
  have d: "distinct (map fst (transactions shop))"
    by (simp add: shop_def)
  have f: "fst (recategorizeAllTransactions asciiLowerCase True 7 shop) = Inr (2, 2)"
    by code_simp
  then have run: "recategorizeAllTransactions asciiLowerCase True 7 shop
      = (Inr (2, 2), snd (recategorizeAllTransactions asciiLowerCase True 7 shop))"
    by (simp add: prod_eq_iff)
  have len: "length (transactions shop) = 2"
    by (simp add: shop_def)
  from recategorize_idempotent [OF d run, of True 8] len d f show ?thesis
    by simp
qed

lemma categoryLoop_mem: "categoryLoop toLowerCase s cs = Some c \<Longrightarrow> c \<in> set cs"
  by (induction cs) (auto split: field.splits if_splits)

lemma plaidCategoryLoop_mem: "plaidCategoryLoop toLowerCase b cs = Some c \<Longrightarrow> c \<in> set cs"
  by (induction cs) (auto split: field.splits if_splits)

lemma plaidMappingLoop_mem: "plaidMappingLoop toLowerCase ms pf cs = Some c \<Longrightarrow> c \<in> set cs"
  by (induction toLowerCase ms pf cs rule: plaidMappingLoop.induct)
     (auto split: if_splits option.splits dest: plaidCategoryLoop_mem)

lemma assignCategory_mem: "assignCategory toLowerCase cats n m pf = Some c \<Longrightarrow> c \<in> set cats"
  by (auto simp: assignCategory_def findCategoryByKeywords_def findCategoryByPlaidCategory_def
           split: option.splits if_splits dest: categoryLoop_mem plaidMappingLoop_mem)

lemma map_of_reconciled:
  "distinct (map fst xs) \<Longrightarrow> (k, tx) \<in> set xs \<Longrightarrow>
   map_of (map (reconciled toLowerCase cats now) xs) k = Some (snd (reconciled toLowerCase cats now (k, tx)))"
proof (induction xs)
  case Nil
  then show ?case by simp
next
  case (Cons a xs)
  have fst_rec: "\<And>kd. fst (reconciled toLowerCase cats now kd) = fst kd"
    by (simp add: reconciled_def Let_def)
  obtain k' d where a: "a = (k', d)" by (cases a)
  show ?case
  proof (cases "k = k'")
    case True
    with Cons.prems have "tx = d" by (force simp: a)
    with True show ?thesis
      by (cases "reconciled toLowerCase cats now (k', d)") (use fst_rec [of "(k', d)"] in \<open>simp add: a\<close>)
  next
    case False
    with Cons show ?thesis
      by (cases "reconciled toLowerCase cats now (k', d)") (use fst_rec [of "(k', d)"] in \<open>auto simp: a\<close>)
  qed
qed

text \<open>
  C1, as amended. After a full reconciliation that returned, every transaction's category
  id (\<open>category || null\<close>) is the id recomputed for it, of a category that exists. A
  transaction whose stored id differed from the recomputed one has been rewritten: its
  \<open>categoryName\<close> is the current name of that category (\<open>null\<close> when there is none or the
  name is empty). A transaction whose stored id equals the recomputed one is not written at
  all: it keeps the \<open>categoryName\<close> it had.
\<close>

theorem recategorize_category_name:
  assumes dist: "distinct (map fst (transactions st))"
    and run: "recategorizeAllTransactions toLowerCase ok now st = (Inr r, st')"
    and mem: "(k, tx) \<in> set (transactions st)"
    and a: "a = assignCategory toLowerCase (categories st) (name tx) (merchant_name tx) (pf_category tx)"
  shows "\<exists>tx'. map_of (transactions st') k = Some tx'
           \<and> or_null (category tx') = newCategoryId a
           \<and> (case a of None \<Rightarrow> True | Some c \<Rightarrow> c \<in> set (categories st'))
           \<and> (if or_null (category tx) = newCategoryId a then tx' = tx
               else category tx' = of_opt (newCategoryId a)
                  \<and> categoryName tx' = of_opt (case a of None \<Rightarrow> None | Some c \<Rightarrow> or_null (cname c)))"
proof -
  from recategorize_result [OF dist run]
  have st': "st' = st\<lparr>transactions := map (reconciled toLowerCase (categories st) now) (transactions st)\<rparr>"
    by simp
  have look: "map_of (transactions st') k = Some (snd (reconciled toLowerCase (categories st) now (k, tx)))"
    by (simp add: st' map_of_reconciled [OF dist mem])
  have cats: "case a of None \<Rightarrow> True | Some c \<Rightarrow> c \<in> set (categories st')"
    using assignCategory_mem [of toLowerCase "categories st" "name tx" "merchant_name tx" "pf_category tx"]
    by (auto simp: a st' split: option.splits)
  show ?thesis
  proof (cases "or_null (category tx) = newCategoryId a")
    case True
    with look cats show ?thesis
      by (simp add: reconciled_def Let_def a [symmetric])
  next
    case False
    with look cats show ?thesis
      by (simp add: reconciled_def Let_def a [symmetric] merge_categoryPatch
            or_null_newCategoryId newCategoryName_def)
  qed
qed

theorem recategorize_category_name_witness:
  "distinct (map fst (transactions shop))
   \<and> fst (recategorizeAllTransactions asciiLowerCase True 7 shop) = Inr (2, 2)
   \<and> (''t2'', txBistro) \<in> set (transactions shop)
   \<and> assignCategory asciiLowerCase (categories shop) (name txBistro) (merchant_name txBistro)
         (pf_category txBistro) = Some catDining
   \<and> (\<exists>tx'. map_of (transactions (snd (recategorizeAllTransactions asciiLowerCase True 7 shop))) ''t2'' = Some tx'
          \<and> category tx' = Val ''d'' \<and> categoryName tx' = Val ''Dining'')"
proof -
  have d: "distinct (map fst (transactions shop))"
    by (simp add: shop_def)
  have f: "fst (recategorizeAllTransactions asciiLowerCase True 7 shop) = Inr (2, 2)"
    by code_simp
  then have run: "recategorizeAllTransactions asciiLowerCase True 7 shop
      = (Inr (2, 2), snd (recategorizeAllTransactions asciiLowerCase True 7 shop))"
    by (simp add: prod_eq_iff)
  have mem: "(''t2'', txBistro) \<in> set (transactions shop)"
    by (simp add: shop_def)
  have a: "Some catDining = assignCategory asciiLowerCase (categories shop) (name txBistro)
      (merchant_name txBistro) (pf_category txBistro)"
    by code_simp
  have old: "or_null (category txBistro) = None"
    by (simp add: txBistro_def empty_doc_def or_null_def)
  have new: "newCategoryId (Some catDining) = Some ''d''" "or_null (cname catDining) = Some ''Dining''"
    by (simp_all add: newCategoryId_def cid_def catDining_def or_null_def)
  from recategorize_category_name [OF d run mem a]
  obtain tx' where "map_of (transactions (snd (recategorizeAllTransactions asciiLowerCase True 7 shop))) ''t2'' = Some tx'"
    and "category tx' = Val ''d''" and "categoryName tx' = Val ''Dining''"
    by (auto simp: old new of_opt_def)
  with d f mem a show ?thesis by auto
qed

text \<open>
  C1 as stated fails: renaming the category Food to Dining Out with its keywords unchanged
  runs the reconciliation, which updates nothing, and the transaction assigned to the
  category still carries the name Food.
\<close>

theorem rename_keeps_stale_categoryName:
  "fst (updateCategory asciiLowerCase True True 9 ''c1'' renameBody ledger) = Inr 0
   \<and> map cid (categories (snd (updateCategory asciiLowerCase True True 9 ''c1'' renameBody ledger))) = [Val ''c1'']
   \<and> map cname (categories (snd (updateCategory asciiLowerCase True True 9 ''c1'' renameBody ledger)))
       = [Val ''Dining Out'']
   \<and> map_of (transactions (snd (updateCategory asciiLowerCase True True 9 ''c1'' renameBody ledger))) ''t1''
       = Some txRestaurant
   \<and> category txRestaurant = Val ''c1''
   \<and> categoryName txRestaurant = Val ''Food''"
  by code_simp

section \<open>Amounts, budgets and accounts\<close>

text \<open>
  C7. The sync route stores \<open>t.amount * 100\<close> as the multiplication of doubles gives it,
  with no rounding to an integer: for the provider amount 1.15 the stored amount is
  114.99999999999998579 (\<open>115 - 2 ^ -46\<close>), and for 0.005 it is 0.5; neither is an integer
  number of cents. The edit route stores \<open>parseInt(amount)\<close>: an integer, and not multiplied
  by 100.
\<close>

theorem sync_amount_not_integer:
  "amount (syncData toLowerCase cats now t) = Val (num_mult (p_amount t) (Num 100))
   \<and> amount (syncData toLowerCase cats now smallCharge) = Val (Num (115 - 1 / 2 ^ 46))
   \<and> (\<forall>z::int. of_int z \<noteq> (115 - 1 / 2 ^ 46 :: rat))
   \<and> amount (syncData toLowerCase cats now tinyCharge) = Val (Num (1 / 2))
   \<and> (\<forall>z::int. of_int z \<noteq> (1 / 2 :: rat))
   \<and> amount (editUpdateData cats now (amountBody (Num (1 / 2)))) = Val (Num 0)
   \<and> amount (editUpdateData cats now (amountBody (Num (2469 / 2)))) = Val (Num 1234)"
proof -
  have half: "\<And>z::int. of_int z \<noteq> (1 / 2 :: rat)"
  proof
    fix z :: int
    assume "of_int z = (1 / 2 :: rat)"
    then have "of_int (2 * z) = (1 :: rat)" by simp
    then have "2 * z = 1" by (metis of_int_eq_1_iff)
    then show False by presburger
  qed
  have near: "\<And>z::int. of_int z \<noteq> (115 - 1 / 2 ^ 46 :: rat)"
  proof
    fix z :: int
    assume "of_int z = (115 - 1 / 2 ^ 46 :: rat)"
    then have "of_int (2 ^ 46 * (115 - z)) = (1 :: rat)" by simp
    then have "2 ^ 46 * (115 - z) = 1" by (metis of_int_eq_1_iff)
    then have "(2::int) dvd 1" by (metis dvd_mult2 dvd_power dvd_refl zero_less_numeral)
    then show False by simp
  qed
  have small: "num_mult (jsonNumber (115 / 100)) (Num 100) = Num (115 - 1 / 2 ^ 46)"
    by code_simp
  have tiny: "num_mult (jsonNumber (1 / 200)) (Num 100) = Num (1 / 2)"
    by code_simp
  have edit: "parseInt (Num (1 / 2)) = Num 0" "parseInt (Num (2469 / 2)) = Num 1234"
    by code_simp+
  have gen: "amount (syncData toLowerCase cats now t) = Val (num_mult (p_amount t) (Num 100))" for t
    by (simp add: syncData_def Let_def)
  have e1: "amount (editUpdateData cats now (amountBody (Num (1 / 2)))) = Val (Num 0)"
    by (simp add: editUpdateData_def amountBody_def empty_doc_def edit(1) del: parseInt.simps)
  have e2: "amount (editUpdateData cats now (amountBody (Num (2469 / 2)))) = Val (Num 1234)"
    by (simp add: editUpdateData_def amountBody_def empty_doc_def edit(2) del: parseInt.simps)
  have s1: "amount (syncData toLowerCase cats now smallCharge) = Val (Num (115 - 1 / 2 ^ 46))"
    unfolding gen by (simp only: smallCharge_def plaid_transaction.simps small)
  have s2: "amount (syncData toLowerCase cats now tinyCharge) = Val (Num (1 / 2))"
    unfolding gen by (simp only: tinyCharge_def plaid_transaction.simps tiny)
  from gen s1 near s2 half e1 e2 show ?thesis by blast
qed

text \<open>
  C8. For a user who already has a budget, \<open>POST /budgets\<close> is rejected (status 400, "User can
  only have one budget for now") before any write: the store, and with it the budget and
  category collections, is unchanged.
\<close>

theorem createBudget_conflict:
  "budgets st \<noteq> [] \<Longrightarrow>
   createBudget gen wok name' cats st =
     (Inl (Http400 ''User can only have one budget for now''), st)"
  by (simp add: createBudget_def)

theorem createBudget_conflict_witness:
  "budgets shop \<noteq> []
   \<and> createBudget (\<lambda>i. ''fresh'') (\<lambda>i. True) (Val ''Second'') [catFood] shop =
       (Inl (Http400 ''User can only have one budget for now''), shop)"
proof -
  have b: "budgets shop \<noteq> []" by (simp add: shop_def)
  from createBudget_conflict [OF b] b show ?thesis by blast
qed

lemma apply_deletes:
  "apply_writes (map (\<lambda>kd. TxDelete (fst kd)) ds) st =
     Some (st\<lparr>transactions := filter (\<lambda>kd. fst kd \<notin> fst ` set ds) (transactions st)\<rparr>)"
proof (induction ds arbitrary: st)
  case Nil
  show ?case by simp
next
  case (Cons d ds)
  have "filter (\<lambda>kd. fst kd \<notin> fst ` set ds) (filter (\<lambda>kd. fst kd \<noteq> fst d) (transactions st))
      = filter (\<lambda>kd. fst kd \<notin> fst ` set (d # ds)) (transactions st)"
    by (auto intro: filter_cong)
  then show ?case by (simp add: Cons.IH)
qed

lemma delete_query_keys:
  assumes "distinct (map fst xs)"
  shows "filter (\<lambda>kd. fst kd \<notin> fst ` set (filter P xs)) xs = filter (\<lambda>kd. \<not> P kd) xs"
proof (rule filter_cong [OF refl])
  fix kd assume kd: "kd \<in> set xs"
  show "(fst kd \<notin> fst ` set (filter P xs)) = (\<not> P kd)"
  proof
    assume "fst kd \<notin> fst ` set (filter P xs)"
    with kd show "\<not> P kd" by force
  next
    assume np: "\<not> P kd"
    show "fst kd \<notin> fst ` set (filter P xs)"
    proof
      assume "fst kd \<in> fst ` set (filter P xs)"
      then obtain kd' where kd': "kd' \<in> set xs" "P kd'" "fst kd' = fst kd" by auto
      with assms kd have "kd' = kd"
        by (metis eq_key_imp_eq_value prod.collapse)
      with kd' np show False by simp
    qed
  qed
qed

text \<open>
  C9, as amended. Deleting an account with \<open>deleteTransactions = true\<close> ends in one of three
  stores: nothing deleted; the transactions of the account deleted (exactly those whose
  \<open>account_id\<close> is the account's id, every other transaction as it was) and the account still
  there; or those transactions and the account record both deleted, which is the case
  whenever the route answers with success. The transactions go in one atomic batch; the
  account record goes in a later write of its own.
\<close>

theorem deleteAccount_cascade:
  assumes dist: "distinct (map fst (transactions st))"
    and run: "deleteAccount batch_ok delete_ok accountId True st = (res, st')"
  shows "(st' = st
          \<or> st' = st\<lparr>transactions :=
                       filter (\<lambda>kd. account_id (snd kd) \<noteq> Val accountId) (transactions st)\<rparr>
          \<or> st' = st\<lparr>transactions :=
                       filter (\<lambda>kd. account_id (snd kd) \<noteq> Val accountId) (transactions st),
                     accounts := filter (\<lambda>ka. fst ka \<noteq> accountId) (accounts st)\<rparr>)
         \<and> (res = Inr True \<longrightarrow>
              st' = st\<lparr>transactions :=
                         filter (\<lambda>kd. account_id (snd kd) \<noteq> Val accountId) (transactions st),
                       accounts := filter (\<lambda>ka. fst ka \<noteq> accountId) (accounts st)\<rparr>)"
  using run delete_query_keys [OF dist, of "\<lambda>kd. account_id (snd kd) = Val accountId"]
  by (auto simp: deleteAccount_def commit_def apply_deletes split: option.splits if_splits)

theorem deleteAccount_cascade_witness:
  "distinct (map fst (transactions shop))
   \<and> deleteAccount True True ''acc1'' True shop =
       (Inr True, shop\<lparr>transactions :=
                         filter (\<lambda>kd. account_id (snd kd) \<noteq> Val ''acc1'') (transactions shop),
                       accounts := filter (\<lambda>ka. fst ka \<noteq> ''acc1'') (accounts shop)\<rparr>)
   \<and> map fst (filter (\<lambda>kd. account_id (snd kd) \<noteq> Val ''acc1'') (transactions shop)) = [''t2'']
   \<and> map fst (filter (\<lambda>ka. fst ka \<noteq> ''acc1'') (accounts shop)) = [''acc2'']"
proof -
  have d: "distinct (map fst (transactions shop))"
    by (simp add: shop_def)
  have f: "fst (deleteAccount True True ''acc1'' True shop) = Inr True"
    by code_simp
  then have run: "deleteAccount True True ''acc1'' True shop
      = (Inr True, snd (deleteAccount True True ''acc1'' True shop))"
    by (simp add: prod_eq_iff)
  from deleteAccount_cascade [OF d run]
  have "snd (deleteAccount True True ''acc1'' True shop) =
      shop\<lparr>transactions := filter (\<lambda>kd. account_id (snd kd) \<noteq> Val ''acc1'') (transactions shop),
           accounts := filter (\<lambda>ka. fst ka \<noteq> ''acc1'') (accounts shop)\<rparr>"
    by blast
  with run have "deleteAccount True True ''acc1'' True shop =
       (Inr True, shop\<lparr>transactions :=
                         filter (\<lambda>kd. account_id (snd kd) \<noteq> Val ''acc1'') (transactions shop),
                       accounts := filter (\<lambda>ka. fst ka \<noteq> ''acc1'') (accounts shop)\<rparr>)"
    by simp
  moreover have
    "map fst (filter (\<lambda>kd. account_id (snd kd) \<noteq> Val ''acc1'') (transactions shop)) = [''t2'']"
    "map fst (filter (\<lambda>ka. fst ka \<noteq> ''acc1'') (accounts shop)) = [''acc2'']"
    by (simp_all add: shop_def txFooMart_def txBistro_def empty_doc_def)
  ultimately show ?thesis using d by blast
qed

text \<open>
  C9 as stated fails: when the batch is committed and the later delete of the account record
  is refused, the transactions of the account are gone and the account is still there.
\<close>

theorem deleteAccount_not_atomic:
  "fst (deleteAccount True False ''acc1'' True shop) = Inl Http500
   \<and> map fst (accounts shop) = [''acc1'', ''acc2'']
   \<and> map fst (accounts (snd (deleteAccount True False ''acc1'' True shop))) = [''acc1'', ''acc2'']
   \<and> map fst (transactions shop) = [''t1'', ''t2'']
   \<and> map fst (transactions (snd (deleteAccount True False ''acc1'' True shop))) = [''t2'']"
  by code_simp

section \<open>Merge writes of the sync batch\<close>

lemma merge_field_mentioned: "q \<noteq> Absent \<Longrightarrow> merge_field x q = q"
  by (cases q) simp_all

lemma shaped_absorb:
  "upsert_shaped p \<Longrightarrow> upsert_shaped q \<Longrightarrow> merge_doc (merge_doc d p) q = merge_doc d q"
  by (simp add: upsert_shaped_def merge_doc_def merge_field_mentioned)

lemma shaped_replace: "upsert_shaped p \<Longrightarrow> upsert_shaped q \<Longrightarrow> merge_doc p q = q"
  by (cases q) (simp add: upsert_shaped_def merge_doc_def merge_field_mentioned)

lemma shaped_merge_forget:
  "upsert_shaped q \<Longrightarrow> (merge_doc d q)\<lparr>removed := Absent\<rparr> = q"
  by (cases q) (simp add: upsert_shaped_def merge_doc_def merge_field_mentioned)

lemma shaped_forget: "upsert_shaped q \<Longrightarrow> q\<lparr>removed := Absent\<rparr> = q"
  by (cases q) (simp add: upsert_shaped_def)

lemma syncData_shaped: "upsert_shaped (syncData toLowerCase cats now t)"
  by (simp add: upsert_shaped_def syncData_def Let_def of_opt_not_Absent)

lemma keys_merge_all: "map fst (merge_all kps xs) = add_keys (map fst kps) (map fst xs)"
proof (induction kps arbitrary: xs)
  case Nil
  show ?case by simp
next
  case (Cons kp kps)
  obtain k p where kp: "kp = (k, p)" by (cases kp)
  have "k \<in> fst ` set xs \<longleftrightarrow> k \<in> set (map fst xs)" by simp
  then show ?case by (simp add: kp Cons.IH set_merge_keys del: set_map)
qed

lemma set_add_keys: "set (add_keys ks ids) = set ids \<union> set ks"
  by (induction ks arbitrary: ids) auto

lemma add_keys_known: "set ks \<subseteq> set ids \<Longrightarrow> add_keys ks ids = ids"
  by (induction ks arbitrary: ids) auto

lemma add_keys_twice: "add_keys ks (add_keys ks ids) = add_keys ks ids"
  by (rule add_keys_known) (simp add: set_add_keys)

lemma distinct_add_keys: "distinct ids \<Longrightarrow> distinct (add_keys ks ids)"
  by (induction ks arbitrary: ids) auto

lemma map_of_merge_all_other:
  "k \<notin> fst ` set kps \<Longrightarrow> map_of (merge_all kps xs) k = map_of xs k"
  by (induction kps xs rule: merge_all.induct) (auto simp: map_of_set_merge)

lemma map_of_merge_all_shaped:
  "\<forall>kp \<in> set kps. upsert_shaped (snd kp) \<Longrightarrow>
   map_of (merge_all kps xs) k =
     (case map_of (rev kps) k of
        None \<Rightarrow> map_of xs k
      | Some q \<Rightarrow> Some (case map_of xs k of None \<Rightarrow> q | Some d \<Rightarrow> merge_doc d q))"
proof (induction kps arbitrary: xs)
  case Nil
  show ?case by simp
next
  case (Cons kp kps)
  obtain k1 p1 where kp: "kp = (k1, p1)" by (cases kp)
  from Cons.prems have p1: "upsert_shaped p1" and rest: "\<forall>kp \<in> set kps. upsert_shaped (snd kp)"
    by (simp_all add: kp)
  note IH = Cons.IH [OF rest, of "set_merge k1 p1 xs"]
  show ?case
  proof (cases "map_of (rev kps) k")
    case None
    with IH show ?thesis
      by (simp add: kp map_of_set_merge map_add_def split: option.splits)
  next
    case (Some q)
    then have "(k, q) \<in> set kps" by (auto dest: map_of_SomeD)
    with rest have q: "upsert_shaped q" by force
    from Some IH show ?thesis
      by (simp add: kp map_of_set_merge map_add_def shaped_absorb [OF p1 q] shaped_replace [OF p1 q]
            split: option.splits)
  qed
qed

lemma alist_eqI:
  "distinct (map fst xs) \<Longrightarrow> map fst xs = map fst ys \<Longrightarrow> map_of xs = map_of ys \<Longrightarrow> xs = ys"
proof (induction xs arbitrary: ys)
  case Nil
  then show ?case by simp
next
  case (Cons x xs)
  from Cons.prems(2) obtain y ys' where ys: "ys = y # ys'" and fxy: "fst x = fst y"
    and keys: "map fst xs = map fst ys'"
    by (cases ys) auto
  from Cons.prems(3) have "map_of (x # xs) (fst x) = map_of (y # ys') (fst x)"
    unfolding ys by (rule fun_cong)
  with fxy have xy: "x = y" by (cases x, cases y) simp
  from Cons.prems(1) have nx: "fst x \<notin> fst ` set xs" and dx: "distinct (map fst xs)" by auto
  from nx keys have ny: "fst x \<notin> fst ` set ys'"
    by (metis set_map)
  have "map_of xs = map_of ys'"
  proof
    fix k
    show "map_of xs k = map_of ys' k"
    proof (cases "k = fst x")
      case True
      from nx ny have "map_of xs (fst x) = None" "map_of ys' (fst x) = None"
        by (simp_all add: map_of_eq_None_iff)
      with True show ?thesis by simp
    next
      case False
      from Cons.prems(3) have "map_of (x # xs) k = map_of (y # ys') k"
        unfolding ys by (rule fun_cong)
      with False xy show ?thesis by (cases x) (simp split: if_splits)
    qed
  qed
  with Cons.IH [OF dx keys] xy ys show ?case by simp
qed


lemma apply_sets:
  "apply_writes (map (\<lambda>kp. TxSet (fst kp) (snd kp)) kps @ rest) st =
     apply_writes rest (st\<lparr>transactions := merge_all kps (transactions st)\<rparr>)"
proof (induction kps arbitrary: st)
  case Nil
  show ?case by simp
next
  case (Cons kp kps)
  obtain k p where kp: "kp = (k, p)" by (cases kp)
  show ?case by (simp add: kp Cons.IH)
qed

lemma upsertOps_pairs:
  "upsertOps toLowerCase cats now ts = map (\<lambda>kp. TxSet (fst kp) (snd kp)) (upsertPairs toLowerCase cats now ts)"
  by (simp add: upsertOps_def upsertPairs_def comp_def)

lemma apply_upsertOps:
  "apply_writes (upsertOps toLowerCase cats now ts) st =
     Some (st\<lparr>transactions := merge_all (upsertPairs toLowerCase cats now ts) (transactions st)\<rparr>)"
  using apply_sets [of "upsertPairs toLowerCase cats now ts" "[]" st]
  by (simp add: upsertOps_pairs)

lemma upsertPairs_keys: "map fst (upsertPairs toLowerCase cats now ts) = map p_transaction_id ts"
  by (simp add: upsertPairs_def comp_def)

lemma upsertPairs_shaped: "\<forall>kp \<in> set (upsertPairs toLowerCase cats now ts). upsert_shaped (snd kp)"
  by (auto simp: upsertPairs_def syncData_shaped)

lemma merge_all_absorb:
  assumes dist: "distinct (map fst xs)"
    and keys: "map fst kps1 = map fst kps2"
    and s1: "\<forall>kp \<in> set kps1. upsert_shaped (snd kp)"
    and s2: "\<forall>kp \<in> set kps2. upsert_shaped (snd kp)"
  shows "merge_all kps2 (merge_all kps1 xs) = merge_all kps2 xs"
proof (rule alist_eqI)
  show "distinct (map fst (merge_all kps2 (merge_all kps1 xs)))"
    by (simp add: keys_merge_all distinct_add_keys dist)
  show "map fst (merge_all kps2 (merge_all kps1 xs)) = map fst (merge_all kps2 xs)"
    by (simp add: keys_merge_all keys add_keys_twice)
  show "map_of (merge_all kps2 (merge_all kps1 xs)) = map_of (merge_all kps2 xs)"
  proof
    fix k
    have same: "fst ` set kps1 = fst ` set kps2"
      using keys by (metis set_map)
    show "map_of (merge_all kps2 (merge_all kps1 xs)) k = map_of (merge_all kps2 xs) k"
    proof (cases "map_of (rev kps2) k")
      case None
      then have "k \<notin> fst ` set kps2" by (simp add: map_of_eq_None_iff)
      with same have "k \<notin> fst ` set kps1" by simp
      with None show ?thesis
        by (simp add: map_of_merge_all_shaped [OF s2] map_of_merge_all_other)
    next
      case (Some q2)
      then have "(k, q2) \<in> set kps2" by (auto dest: map_of_SomeD)
      with s2 have q2: "upsert_shaped q2" by force
      from Some have "k \<in> fst ` set kps2" by (force dest: map_of_SomeD)
      with same have "k \<in> fst ` set (rev kps1)" by simp
      then obtain q1 where q1m: "map_of (rev kps1) k = Some q1"
        by (metis map_of_eq_None_iff not_None_eq)
      then have "(k, q1) \<in> set kps1" by (auto dest: map_of_SomeD)
      with s1 have q1: "upsert_shaped q1" by force
      from Some q1m show ?thesis
        by (simp add: map_of_merge_all_shaped [OF s2] map_of_merge_all_shaped [OF s1]
              shaped_absorb [OF q1 q2] shaped_replace [OF q1 q2] split: option.splits)
    qed
  qed
qed

lemma syncData_restamp:
  "syncData toLowerCase cats now' t = (syncData toLowerCase cats now t)\<lparr>updatedAt := Val now'\<rparr>"
  by (simp add: syncData_def Let_def)

lemma upsertPairs_restamp:
  "upsertPairs toLowerCase cats now' ts =
     map (\<lambda>(k, q). (k, q\<lparr>updatedAt := Val now'\<rparr>)) (upsertPairs toLowerCase cats now ts)"
  by (simp add: upsertPairs_def syncData_restamp [where now' = now' and now = now])

lemma map_of_restamp:
  "map_of (restamp now ks xs) k =
     map_option (\<lambda>d. if k \<in> set ks then d\<lparr>updatedAt := Val now\<rparr> else d) (map_of xs k)"
  by (induction xs) (auto simp: restamp_def)

lemma keys_restamp: "map fst (restamp now ks xs) = map fst xs"
  by (induction xs) (auto simp: restamp_def)

lemma merge_doc_restamp:
  "merge_doc d (q\<lparr>updatedAt := Val n\<rparr>) = (merge_doc d q)\<lparr>updatedAt := Val n\<rparr>"
  by (simp add: merge_doc_def merge_field_def)

lemma merge_all_restamp:
  assumes dist: "distinct (map fst xs)"
  shows "merge_all (upsertPairs toLowerCase cats now' ts) xs =
     restamp now' (map p_transaction_id ts) (merge_all (upsertPairs toLowerCase cats now ts) xs)"
proof (rule alist_eqI)
  show "distinct (map fst (merge_all (upsertPairs toLowerCase cats now' ts) xs))"
    by (simp add: keys_merge_all distinct_add_keys dist)
  show "map fst (merge_all (upsertPairs toLowerCase cats now' ts) xs) =
      map fst (restamp now' (map p_transaction_id ts) (merge_all (upsertPairs toLowerCase cats now ts) xs))"
    by (simp add: keys_merge_all upsertPairs_keys keys_restamp)
  show "map_of (merge_all (upsertPairs toLowerCase cats now' ts) xs) =
      map_of (restamp now' (map p_transaction_id ts) (merge_all (upsertPairs toLowerCase cats now ts) xs))"
  proof
    fix k
    let ?p = "upsertPairs toLowerCase cats now ts" and ?p' = "upsertPairs toLowerCase cats now' ts"
    have ids: "fst ` set ?p = set (map p_transaction_id ts)" "fst ` set ?p' = set (map p_transaction_id ts)"
      by (simp_all add: upsertPairs_def image_image)
    have rev': "map_of (rev ?p') k = map_option (\<lambda>q. q\<lparr>updatedAt := Val now'\<rparr>) (map_of (rev ?p) k)"
      by (simp add: upsertPairs_restamp [where now' = now' and now = now] rev_map map_of_map)
    show "map_of (merge_all ?p' xs) k = map_of (restamp now' (map p_transaction_id ts) (merge_all ?p xs)) k"
    proof (cases "map_of (rev ?p) k")
      case None
      then have "k \<notin> fst ` set ?p"
        by (simp add: map_of_eq_None_iff)
      with ids have "k \<notin> fst ` set ?p'" and "k \<notin> set (map p_transaction_id ts)"
        by simp_all
      with \<open>k \<notin> fst ` set ?p\<close> show ?thesis
        by (simp add: map_of_restamp map_of_merge_all_other option.map_ident)
    next
      case (Some q)
      then have "k \<in> fst ` set ?p"
        by (force dest: map_of_SomeD)
      with ids have k: "k \<in> set (map p_transaction_id ts)"
        by simp
      from Some rev' have "map_of (rev ?p') k = Some (q\<lparr>updatedAt := Val now'\<rparr>)"
        by simp
      with Some k show ?thesis
        by (simp add: map_of_restamp map_of_merge_all_shaped [OF upsertPairs_shaped] merge_doc_restamp
              split: option.splits)
    qed
  qed
qed

text \<open>
  C6, as amended. The upserts of a sync, applied a second time for the same \<open>added\<close> delta
  and the same categories: every record is written by a merge-set under the provider's
  \<open>transaction_id\<close>, and the written data mentions the same fields each time, so the
  second application (at commit time \<open>now'\<close>, the
  first at \<open>now\<close>) adds no document, removes none, and leaves every field of every document
  as the first application left it, but for \<open>updatedAt\<close> of the documents of the delta, which
  becomes \<open>now'\<close>. The final state is the one a single application at \<open>now'\<close> gives; a second
  application at the same commit time changes nothing.
\<close>

theorem upsert_idempotent:
  assumes "distinct (map fst (transactions st))"
  shows "\<exists>st1 st2. apply_writes (upsertOps toLowerCase cats now delta) st = Some st1
           \<and> apply_writes (upsertOps toLowerCase cats now delta) st1 = Some st1
           \<and> apply_writes (upsertOps toLowerCase cats now' delta) st1 = Some st2
           \<and> apply_writes (upsertOps toLowerCase cats now' delta) st = Some st2
           \<and> st2 = st1\<lparr>transactions := restamp now' (map p_transaction_id delta) (transactions st1)\<rparr>"
proof -
  let ?p = "upsertPairs toLowerCase cats now delta" and ?p' = "upsertPairs toLowerCase cats now' delta"
  have same: "merge_all ?p (merge_all ?p (transactions st)) = merge_all ?p (transactions st)"
    using assms by (rule merge_all_absorb) (simp_all add: upsertPairs_shaped)
  have later: "merge_all ?p' (merge_all ?p (transactions st)) = merge_all ?p' (transactions st)"
    using assms by (rule merge_all_absorb) (simp_all add: upsertPairs_keys upsertPairs_shaped)
  have stamp: "merge_all ?p' (transactions st) =
      restamp now' (map p_transaction_id delta) (merge_all ?p (transactions st))"
    using assms by (rule merge_all_restamp)
  show ?thesis
    by (simp add: apply_upsertOps same later stamp)
qed

theorem upsert_idempotent_witness:
  "distinct (map fst (transactions shop))
   \<and> (\<exists>st1 st2.
          apply_writes (upsertOps asciiLowerCase (categories shop) 5 [fooMartCharge, tinyCharge]) shop = Some st1
          \<and> apply_writes (upsertOps asciiLowerCase (categories shop) 5 [fooMartCharge, tinyCharge]) st1 = Some st1
          \<and> apply_writes (upsertOps asciiLowerCase (categories shop) 6 [fooMartCharge, tinyCharge]) st1 = Some st2
          \<and> apply_writes (upsertOps asciiLowerCase (categories shop) 6 [fooMartCharge, tinyCharge]) shop = Some st2
          \<and> st2 = st1\<lparr>transactions := restamp 6 [''t1'', ''t9''] (transactions st1)\<rparr>
          \<and> map fst (transactions st1) = [''t1'', ''t2'', ''t9''])"
proof -
  have d: "distinct (map fst (transactions shop))"
    by (simp add: shop_def)
  have k: "map fst (transactions (the (apply_writes
      (upsertOps asciiLowerCase (categories shop) 5 [fooMartCharge, tinyCharge]) shop))) = [''t1'', ''t2'', ''t9'']"
    by (simp add: upsertOps_def shop_def fooMartCharge_def tinyCharge_def)
  have i: "map p_transaction_id [fooMartCharge, tinyCharge] = [''t1'', ''t9'']"
    by (simp add: fooMartCharge_def tinyCharge_def)
  from upsert_idempotent [OF d, where toLowerCase = asciiLowerCase and cats = "categories shop"
      and now = 5 and delta = "[fooMartCharge, tinyCharge]" and now' = 6] k d i
  show ?thesis by auto
qed

text \<open>
  C6 as stated fails: with the same delta applied at commit time 5 and again at commit
  time 6, the second application changes the stored \<open>updatedAt\<close> of the transaction, so the
  store is not the one the first application left.
\<close>

theorem upsert_twice_updatedAt:
  "\<exists>st1 st2. apply_writes (upsertOps asciiLowerCase (categories shop) 5 [fooMartCharge]) shop = Some st1
      \<and> apply_writes (upsertOps asciiLowerCase (categories shop) 6 [fooMartCharge]) st1 = Some st2
      \<and> map_option updatedAt (map_of (transactions st1) ''t1'') = Some (Val 5)
      \<and> map_option updatedAt (map_of (transactions st2) ''t1'') = Some (Val 6)
      \<and> st2 \<noteq> st1"
proof -
  define st1 where "st1 = shop\<lparr>transactions :=
      merge_all (upsertPairs asciiLowerCase (categories shop) 5 [fooMartCharge]) (transactions shop)\<rparr>"
  define st2 where "st2 = st1\<lparr>transactions :=
      merge_all (upsertPairs asciiLowerCase (categories shop) 6 [fooMartCharge]) (transactions st1)\<rparr>"
  have a: "apply_writes (upsertOps asciiLowerCase (categories shop) 5 [fooMartCharge]) shop = Some st1"
    by (simp add: apply_upsertOps st1_def)
  have b: "apply_writes (upsertOps asciiLowerCase (categories shop) 6 [fooMartCharge]) st1 = Some st2"
    by (simp add: apply_upsertOps st2_def)
  have u1: "map_option updatedAt (map_of (transactions st1) ''t1'') = Some (Val 5)"
    by (simp add: st1_def upsertPairs_def shop_def fooMartCharge_def syncData_def Let_def merge_doc_def)
  have u2: "map_option updatedAt (map_of (transactions st2) ''t1'') = Some (Val 6)"
    by (simp add: st2_def st1_def upsertPairs_def shop_def fooMartCharge_def syncData_def Let_def
          merge_doc_def)
  from u1 u2 have "st2 \<noteq> st1"
    by auto
  with a b u1 u2 show ?thesis
    by blast
qed

section \<open>Removed markers and the sync batch\<close>

lemma merge_field_twice [simp]: "merge_field (merge_field a b) b = merge_field a b"
  by (cases b) simp_all

lemma merge_field_self [simp]: "merge_field b b = b"
  by (cases b) simp_all

lemma merge_doc_twice: "merge_doc (merge_doc d m) m = merge_doc d m"
  by (simp add: merge_doc_def)

lemma merge_doc_self: "merge_doc m m = m"
  by (cases m) (simp add: merge_doc_def)

lemma merge_removedData:
  "merge_doc d (removedData now) = d\<lparr>removed := Val True, updatedAt := Val now\<rparr>"
  by (cases d) (simp add: merge_doc_def removedData_def empty_doc_def)

lemma removedOps_pairs:
  "removedOps now rs = map (\<lambda>kp. TxSet (fst kp) (snd kp)) (removedPairs now rs)"
  by (simp add: removedOps_def removedPairs_def comp_def)

lemma map_of_merge_all_same:
  "map_of (merge_all (map (\<lambda>r. (r, m)) rs) xs) k =
     (if k \<in> set rs then Some (case map_of xs k of None \<Rightarrow> m | Some d \<Rightarrow> merge_doc d m)
      else map_of xs k)"
proof (induction rs arbitrary: xs)
  case Nil
  show ?case by simp
next
  case (Cons r rs)
  show ?case
    by (simp add: Cons.IH map_of_set_merge merge_doc_twice merge_doc_self split: option.splits)
qed

lemma map_of_removed:
  "map_of (merge_all (removedPairs now rs) xs) k =
     (if k \<in> set rs
      then Some (case map_of xs k of
                   None \<Rightarrow> empty_doc\<lparr>removed := Val True, updatedAt := Val now\<rparr>
                 | Some d \<Rightarrow> d\<lparr>removed := Val True, updatedAt := Val now\<rparr>)
      else map_of xs k)"
proof -
  have e: "empty_doc\<lparr>removed := Val True, updatedAt := Val now\<rparr> = removedData now"
    by (simp add: removedData_def)
  show ?thesis
    unfolding removedPairs_def map_of_merge_all_same e
    by (simp add: merge_removedData split: option.splits)
qed



lemma apply_syncBatch:
  "apply_writes (syncBatch toLowerCase cats now (a, m, rs, c)) st =
     Some (st\<lparr>transactions :=
                merge_all (removedPairs now rs) (merge_all (upsertPairs toLowerCase cats now (a @ m)) (transactions st)),
              tokens := Some (case tokens st of
                 None \<Rightarrow> \<lparr>access_token = Absent, item_id = Absent, cursor = Val c, lastSyncAt = Val now\<rparr>
               | Some tok \<Rightarrow> tok\<lparr>cursor := Val c, lastSyncAt := Val now\<rparr>)\<rparr>)"
  by (simp add: syncBatch_def upsertOps_pairs removedOps_pairs apply_sets)



lemma syncCommit_cases:
  assumes "syncCommit toLowerCase plaid ok now st = Some (res, st')"
  shows "(\<exists>e. res = Inl e \<and> st' = st) \<or> (\<exists>f. res = Inr f \<and> apply_writes (syncBatch toLowerCase (categories st) now f) st = Some st')"
  using assms
  by (auto simp: syncCommit_def commit_def split: option.splits sum.splits if_splits)

lemma synced_transactions:
  assumes "apply_writes (syncBatch toLowerCase cats now (a, m, rs, c)) st = Some st'"
  shows "transactions st' =
     merge_all (removedPairs now rs) (merge_all (upsertPairs toLowerCase cats now (a @ m)) (transactions st))"
    and "\<exists>tok. tokens st' = Some tok \<and> cursor tok = Val c \<and> lastSyncAt tok = Val now"
  using assms by (auto simp: apply_syncBatch split: option.splits)


lemma syncLoop_fails:
  "(\<forall>i<j. \<forall>c. \<exists>p. plaid (n + i) c = Some p \<and> has_more p) \<Longrightarrow> (\<forall>c. plaid (n + j) c = None) \<Longrightarrow>
   syncLoop plaid n a m r cur = Some (Inl Http500)"
proof (induction j arbitrary: n a m r cur)
  case 0
  then show ?case by (subst syncLoop.simps) simp
next
  case (Suc j)
  from Suc.prems(1) obtain p where p: "plaid n (or_null cur) = Some p" "has_more p"
    by (metis add.right_neutral zero_less_Suc)
  have step: "\<forall>i<j. \<forall>c. \<exists>p. plaid (Suc n + i) c = Some p \<and> has_more p"
    using Suc.prems(1) by (metis Suc_less_eq add_Suc_shift)
  have last: "\<forall>c. plaid (Suc n + j) c = None"
    using Suc.prems(2) by simp
  show ?case
    by (subst syncLoop.simps) (simp add: p Suc.IH [OF step last])
qed

lemma upsert_persisted:
  assumes t: "t \<in> set ts"
  shows "\<exists>d t'. map_of (merge_all (removedPairs now rs) (merge_all (upsertPairs toLowerCase cats now ts) xs))
               (p_transaction_id t) = Some d
           \<and> t' \<in> set ts \<and> p_transaction_id t' = p_transaction_id t
           \<and> d\<lparr>removed := Absent\<rparr> = syncData toLowerCase cats now t'"
proof -
  let ?k = "p_transaction_id t"
  let ?U = "upsertPairs toLowerCase cats now ts"
  from t have "?k \<in> fst ` set (rev ?U)"
    by (force simp: upsertPairs_def)
  then obtain q where q: "map_of (rev ?U) ?k = Some q"
    by (metis map_of_eq_None_iff not_None_eq)
  then have "(?k, q) \<in> set ?U" by (auto dest: map_of_SomeD)
  then obtain t' where t': "t' \<in> set ts" "p_transaction_id t' = ?k" "q = syncData toLowerCase cats now t'"
    by (auto simp: upsertPairs_def)
  have sh: "upsert_shaped q" by (simp add: t' syncData_shaped)
  have up: "updatedAt q = Val now" by (simp add: t' syncData_def Let_def)
  define d1 where "d1 = (case map_of xs ?k of None \<Rightarrow> q | Some d \<Rightarrow> merge_doc d q)"
  have d1: "map_of (merge_all ?U xs) ?k = Some d1"
    by (simp add: map_of_merge_all_shaped [OF upsertPairs_shaped] q d1_def)
  have f1: "d1\<lparr>removed := Absent\<rparr> = q"
    by (simp add: d1_def shaped_merge_forget [OF sh] shaped_forget [OF sh] split: option.splits)
  have f2: "(d1\<lparr>removed := Val True, updatedAt := Val now\<rparr>)\<lparr>removed := Absent\<rparr> = q"
    using f1 up by (cases d1) auto
  show ?thesis
    using t' f1 f2 by (auto simp: map_of_removed d1)
qed


text \<open>
  C2. The sync route puts the upserts, the removed markers and the new cursor into one
  batch and commits it once. A call that returns has either written nothing (the store is
  the one it was given, and the answer is an error) or has applied the whole batch: the
  cursor of the last page is stored, every added or modified transaction is stored with the
  data of the sync, and every removed id carries the marker. When a page request of the
  provider fails in the loop, after any number of pages that announced more, the route
  answers 500 and the store, the cursor included, is the one it was given.
\<close>

theorem sync_atomic:
  "(syncCommit toLowerCase plaid ok now st = Some (res, st') \<longrightarrow>
      (\<exists>e. res = Inl e \<and> st' = st)
      \<or> (\<exists>a m rs c. res = Inr (a, m, rs, c)
            \<and> apply_writes (syncBatch toLowerCase (categories st) now (a, m, rs, c)) st = Some st'
            \<and> (\<exists>tok. tokens st' = Some tok \<and> cursor tok = Val c \<and> lastSyncAt tok = Val now)
            \<and> (\<forall>t \<in> set (a @ m). \<exists>d t'.
                   map_of (transactions st') (p_transaction_id t) = Some d
                   \<and> t' \<in> set (a @ m) \<and> p_transaction_id t' = p_transaction_id t
                   \<and> d\<lparr>removed := Absent\<rparr> = syncData toLowerCase (categories st) now t')
            \<and> (\<forall>k \<in> set rs. \<exists>d.
                   map_of (transactions st') k = Some d
                   \<and> removed d = Val True \<and> updatedAt d = Val now)))
   \<and> (tokens st \<noteq> None \<and> (\<forall>i<j. \<forall>c. \<exists>p. plaid i c = Some p \<and> has_more p)
        \<and> (\<forall>c. plaid j c = None) \<longrightarrow>
      syncCommit toLowerCase plaid ok now st = Some (Inl Http500, st)
      \<and> syncTransactions toLowerCase plaid ok now ok' now' st = Some (Inl Http500, st))
   \<and> (tokens st = Some tok
        \<and> syncLoop plaid 0 [] [] [] (of_opt (or_null (cursor tok))) = Some (Inl e) \<longrightarrow>
      syncCommit toLowerCase plaid ok now st = Some (Inl e, st)
      \<and> syncTransactions toLowerCase plaid ok now ok' now' st = Some (Inl e, st))"
proof (intro conjI impI)
  assume run: "syncCommit toLowerCase plaid ok now st = Some (res, st')"
  from syncCommit_cases [OF run]
  show "(\<exists>e. res = Inl e \<and> st' = st)
      \<or> (\<exists>a m rs c. res = Inr (a, m, rs, c)
            \<and> apply_writes (syncBatch toLowerCase (categories st) now (a, m, rs, c)) st = Some st'
            \<and> (\<exists>tok. tokens st' = Some tok \<and> cursor tok = Val c \<and> lastSyncAt tok = Val now)
            \<and> (\<forall>t \<in> set (a @ m). \<exists>d t'.
                   map_of (transactions st') (p_transaction_id t) = Some d
                   \<and> t' \<in> set (a @ m) \<and> p_transaction_id t' = p_transaction_id t
                   \<and> d\<lparr>removed := Absent\<rparr> = syncData toLowerCase (categories st) now t')
            \<and> (\<forall>k \<in> set rs. \<exists>d.
                   map_of (transactions st') k = Some d
                   \<and> removed d = Val True \<and> updatedAt d = Val now))"
  proof
    assume "\<exists>e. res = Inl e \<and> st' = st"
    then show ?thesis by blast
  next
    assume "\<exists>f. res = Inr f \<and> apply_writes (syncBatch toLowerCase (categories st) now f) st = Some st'"
    then obtain a m rs c where res: "res = Inr (a, m, rs, c)"
      and ap: "apply_writes (syncBatch toLowerCase (categories st) now (a, m, rs, c)) st = Some st'"
      by (metis prod_cases4)
    note tx = synced_transactions(1) [OF ap]
    have tok: "\<exists>tok. tokens st' = Some tok \<and> cursor tok = Val c \<and> lastSyncAt tok = Val now"
      by (rule synced_transactions(2) [OF ap])
    have ups: "\<forall>t \<in> set (a @ m). \<exists>d t'.
                   map_of (transactions st') (p_transaction_id t) = Some d
                   \<and> t' \<in> set (a @ m) \<and> p_transaction_id t' = p_transaction_id t
                   \<and> d\<lparr>removed := Absent\<rparr> = syncData toLowerCase (categories st) now t'"
      unfolding tx by (intro ballI upsert_persisted)
    have marks: "\<forall>k \<in> set rs. \<exists>d. map_of (transactions st') k = Some d
                   \<and> removed d = Val True \<and> updatedAt d = Val now"
      unfolding tx by (auto simp: map_of_removed empty_doc_def split: option.splits)
    from res ap tok ups marks show ?thesis by blast
  qed
next
  assume h: "tokens st \<noteq> None \<and> (\<forall>i<j. \<forall>c. \<exists>p. plaid i c = Some p \<and> has_more p)
        \<and> (\<forall>c. plaid j c = None)"
  then obtain tok where tok: "tokens st = Some tok" by auto
  from h have "syncLoop plaid 0 [] [] [] (of_opt (or_null (cursor tok))) = Some (Inl Http500)"
    by (intro syncLoop_fails [where n = 0 and j = j]) simp_all
  with tok show c: "syncCommit toLowerCase plaid ok now st = Some (Inl Http500, st)"
    by (simp add: syncCommit_def)
  then show "syncTransactions toLowerCase plaid ok now ok' now' st = Some (Inl Http500, st)"
    by (simp add: syncTransactions_def)
next
  assume h: "tokens st = Some tok
        \<and> syncLoop plaid 0 [] [] [] (of_opt (or_null (cursor tok))) = Some (Inl e)"
  then show c: "syncCommit toLowerCase plaid ok now st = Some (Inl e, st)"
    by (simp add: syncCommit_def)
  then show "syncTransactions toLowerCase plaid ok now ok' now' st = Some (Inl e, st)"
    by (simp add: syncTransactions_def)
qed

theorem sync_atomic_witness:
  "syncCommit asciiLowerCase bank True 5 shop \<noteq> None
   \<and> fst (the (syncCommit asciiLowerCase bank True 5 shop))
     = Inr ([fooMartCharge, tinyCharge], [], [''t2'', ''gone''], ''cursor-2'')
   \<and> (\<exists>tok. tokens (snd (the (syncCommit asciiLowerCase bank True 5 shop))) = Some tok
          \<and> cursor tok = Val ''cursor-2'' \<and> lastSyncAt tok = Val 5)
   \<and> (\<exists>d. map_of (transactions (snd (the (syncCommit asciiLowerCase bank True 5 shop)))) ''gone'' = Some d
          \<and> removed d = Val True \<and> updatedAt d = Val 5)
   \<and> tokens shop = Some shopToken
   \<and> brokenBank 0 None = Some page1 \<and> has_more page1 \<and> brokenBank 1 (Some ''cursor-1'') = None
   \<and> syncLoop brokenBank 0 [] [] [] (of_opt (or_null (cursor shopToken))) = Some (Inl Http500)
   \<and> syncCommit asciiLowerCase brokenBank True 5 shop = Some (Inl Http500, shop)
   \<and> syncTransactions asciiLowerCase brokenBank True 5 True 6 shop = Some (Inl Http500, shop)"
proof -
  let ?S = "snd (the (syncCommit asciiLowerCase bank True 5 shop))"
  have f: "fst (the (syncCommit asciiLowerCase bank True 5 shop))
     = Inr ([fooMartCharge, tinyCharge], [], [''t2'', ''gone''], ''cursor-2'')"
    by code_simp
  have ne: "syncCommit asciiLowerCase bank True 5 shop \<noteq> None"
    by code_simp
  with f have run: "syncCommit asciiLowerCase bank True 5 shop
      = Some (Inr ([fooMartCharge, tinyCharge], [], [''t2'', ''gone''], ''cursor-2''), ?S)"
    by (auto simp: prod_eq_iff)
  from sync_atomic [where plaid = bank and ok = True and now = 5 and st = shop and st' = ?S
      and res = "Inr ([fooMartCharge, tinyCharge], [], [''t2'', ''gone''], ''cursor-2'')"] run
  have good: "(\<exists>tok. tokens ?S = Some tok \<and> cursor tok = Val ''cursor-2'' \<and> lastSyncAt tok = Val 5)"
    "(\<exists>d. map_of (transactions ?S) ''gone'' = Some d \<and> removed d = Val True \<and> updatedAt d = Val 5)"
    by auto
  have tk: "tokens shop \<noteq> None" and tk': "tokens shop = Some shopToken"
    by (simp_all add: shop_def)
  have loop: "syncLoop brokenBank 0 [] [] [] (of_opt (or_null (cursor shopToken))) = Some (Inl Http500)"
    by code_simp
  from sync_atomic [where plaid = brokenBank and st = shop and tok = shopToken and e = Http500
      and ok = True and now = 5 and ok' = True and now' = 6] tk' loop
  have "syncTransactions asciiLowerCase brokenBank True 5 True 6 shop = Some (Inl Http500, shop)"
    by blast
  have pages: "\<forall>i<1. \<forall>c. \<exists>p. brokenBank i c = Some p \<and> has_more p" "\<forall>c. brokenBank 1 c = None"
    by (simp_all add: brokenBank_def page1_def)
  from sync_atomic [where plaid = brokenBank and j = 1 and st = shop and ok = True and now = 5
      and ok' = True and now' = 6] tk pages
  have bad: "syncCommit asciiLowerCase brokenBank True 5 shop = Some (Inl Http500, shop)"
    "syncTransactions asciiLowerCase brokenBank True 5 True 6 shop = Some (Inl Http500, shop)"
    by blast+
  have "brokenBank 0 None = Some page1" "has_more page1" "brokenBank 1 (Some ''cursor-1'') = None"
    by (simp_all add: brokenBank_def page1_def)
  with ne f good tk' loop bad show ?thesis by simp
qed

end
